theory Spec2Isabelle
  imports Main
begin

section \<open>Conventions of the embedding\<close>

text \<open>
  The program is \<^verbatim>\<open>vinted.py\<close>. Its data is modelled as follows.
  \<^item> A Python \<^verbatim>\<open>str\<close> is a \<^typ>\<open>string\<close>; every \<^typ>\<open>char\<close> stands for one code
    point below 256, so \<^verbatim>\<open>len\<close> and the slice \<^verbatim>\<open>date[:7]\<close> count characters.
  \<^item> The tuples \<^verbatim>\<open>(date, size, provider)\<close> and \<^verbatim>\<open>(transaction, 'Ignored')\<close> are tuples
    of strings of different lengths; they are lists of strings here, so that the
    length and last-element tests of \<^verbatim>\<open>process_transactions\<close> are tests of the model.
  \<^item> Amounts of money are written in the source as decimal literals with two places
    (\<^verbatim>\<open>1.50\<close>, \<^verbatim>\<open>6.90\<close>, \<^verbatim>\<open>10.0\<close>). They are integers counting cents here
    (\<open>150\<close>, \<open>690\<close>, \<open>1000\<close>): sums and differences are exact, and the rounding of
    binary floating point is not part of the model. The amounts a pass computes are
    sums of 0.50 and 6.90 and differences from 10.0; none of them lies on the
    boundary of a comparison or of a rounding to two places.
  \<^item> A raised exception is the left summand of a result.
\<close>

datatype error = KeyError string | ValueError

section \<open>String primitives of Python used by the program\<close>

text \<open>The characters below 256 for which \<^verbatim>\<open>str.isspace\<close> holds; \<^verbatim>\<open>split()\<close> and
  \<^verbatim>\<open>strip()\<close> without arguments use this class.\<close>

definition is_space :: "char \<Rightarrow> bool" where
  "is_space c = (c \<in> set [CHR 0x09, CHR 0x0A, CHR 0x0B, CHR 0x0C, CHR 0x0D,
                           CHR 0x1C, CHR 0x1D, CHR 0x1E, CHR 0x1F, CHR 0x20,
                           CHR 0x85, CHR 0xA0])"

text \<open>\<^verbatim>\<open>s.split()\<close>: a scan that closes the current token at every whitespace
  character and never yields an empty token.\<close>

fun split_from :: "string \<Rightarrow> string \<Rightarrow> string list" where
  "split_from tok [] = (if tok = [] then [] else [tok])"
| "split_from tok (c # cs) =
     (if is_space c then (if tok = [] then split_from [] cs else tok # split_from [] cs)
      else split_from (tok @ [c]) cs)"

definition str_split :: "string \<Rightarrow> string list" where
  "str_split s = split_from [] s"

text \<open>\<^verbatim>\<open>s.strip()\<close>.\<close>

definition str_strip :: "string \<Rightarrow> string" where
  "str_strip s = rev (dropWhile is_space (rev (dropWhile is_space s)))"

text \<open>\<^verbatim>\<open>sep.join(parts)\<close>.\<close>

fun str_join :: "string \<Rightarrow> string list \<Rightarrow> string" where
  "str_join sep [] = []"
| "str_join sep [x] = x"
| "str_join sep (x # y # ys) = x @ sep @ str_join sep (y # ys)"

section \<open>The date parser of the standard library\<close>

text \<open>
  \<^verbatim>\<open>datetime.datetime.strptime(date, "%Y-%m-%d")\<close> compiles the format to the regular
  expression
  \<^verbatim>\<open>(?P<Y>\d\d\d\d)-(?P<m>1[0-2]|0[1-9]|[1-9])-(?P<d>3[0-1]|[1-2]\d|0[1-9]|[1-9]| [1-9])\<close>,
  matches it at the start of the string, raises \<^verbatim>\<open>ValueError\<close> when there is no match
  or when characters remain after the match, converts the three groups to integers
  and builds a date, which raises \<^verbatim>\<open>ValueError\<close> outside year 1..9999, month 1..12
  and day 1..days in the month. Each directive is the list of its alternatives in the
  order the matcher tries them, with the rest of the string after each.
\<close>

definition is_digit :: "char \<Rightarrow> bool" where
  "is_digit c = (c \<in> set ''0123456789'')"

definition digit_val :: "char \<Rightarrow> nat" where
  "digit_val c = of_char c - 48"

fun match_Y :: "string \<Rightarrow> (nat \<times> string) list" where
  "match_Y (a # b # c # d # rest) =
     (if is_digit a \<and> is_digit b \<and> is_digit c \<and> is_digit d
      then [(1000 * digit_val a + 100 * digit_val b + 10 * digit_val c + digit_val d, rest)]
      else [])"
| "match_Y _ = []"

definition match_m :: "string \<Rightarrow> (nat \<times> string) list" where
  "match_m s =
     (case s of a # b # rest \<Rightarrow>
        (if a = CHR ''1'' \<and> b \<in> set ''012'' then [(10 + digit_val b, rest)] else [])
      | _ \<Rightarrow> [])
   @ (case s of a # b # rest \<Rightarrow>
        (if a = CHR ''0'' \<and> b \<in> set ''123456789'' then [(digit_val b, rest)] else [])
      | _ \<Rightarrow> [])
   @ (case s of a # rest \<Rightarrow>
        (if a \<in> set ''123456789'' then [(digit_val a, rest)] else [])
      | _ \<Rightarrow> [])"

definition match_d :: "string \<Rightarrow> (nat \<times> string) list" where
  "match_d s =
     (case s of a # b # rest \<Rightarrow>
        (if a = CHR ''3'' \<and> b \<in> set ''01'' then [(30 + digit_val b, rest)] else [])
      | _ \<Rightarrow> [])
   @ (case s of a # b # rest \<Rightarrow>
        (if a \<in> set ''12'' \<and> is_digit b then [(10 * digit_val a + digit_val b, rest)] else [])
      | _ \<Rightarrow> [])
   @ (case s of a # b # rest \<Rightarrow>
        (if a = CHR ''0'' \<and> b \<in> set ''123456789'' then [(digit_val b, rest)] else [])
      | _ \<Rightarrow> [])
   @ (case s of a # rest \<Rightarrow>
        (if a \<in> set ''123456789'' then [(digit_val a, rest)] else [])
      | _ \<Rightarrow> [])
   @ (case s of a # b # rest \<Rightarrow>
        (if a = CHR '' '' \<and> b \<in> set ''123456789'' then [(digit_val b, rest)] else [])
      | _ \<Rightarrow> [])"

definition match_dash :: "string \<Rightarrow> string list" where
  "match_dash s = (case s of c # rest \<Rightarrow> (if c = CHR ''-'' then [rest] else []) | [] \<Rightarrow> [])"

text \<open>The first successful way through the expression, as a backtracking matcher
  finds it: the groups and the unmatched rest.\<close>

definition regex_match :: "string \<Rightarrow> ((nat \<times> nat \<times> nat) \<times> string) option" where
  "regex_match s =
     (case [((y, m, d), r5). (y, r1) \<leftarrow> match_Y s, r2 \<leftarrow> match_dash r1,
                             (m, r3) \<leftarrow> match_m r2, r4 \<leftarrow> match_dash r3,
                             (d, r5) \<leftarrow> match_d r4]
      of [] \<Rightarrow> None | x # _ \<Rightarrow> Some x)"

definition is_leap :: "nat \<Rightarrow> bool" where
  "is_leap year = (year mod 4 = 0 \<and> (year mod 100 \<noteq> 0 \<or> year mod 400 = 0))"

definition days_in_month :: "nat \<Rightarrow> nat \<Rightarrow> nat" where
  "days_in_month year month =
     (if month = 2 \<and> is_leap year then 29
      else [0, 31, 28, 31, 30, 31, 30, 31, 31, 30, 31, 30, 31] ! month)"

definition strptime :: "string \<Rightarrow> error + (nat \<times> nat \<times> nat)" where
  "strptime s =
     (case regex_match s of
        None \<Rightarrow> Inl ValueError
      | Some ((y, m, d), rest) \<Rightarrow>
          if rest \<noteq> [] then Inl ValueError
          else if 1 \<le> y \<and> y \<le> 9999 \<and> 1 \<le> m \<and> m \<le> 12 \<and> 1 \<le> d \<and> d \<le> days_in_month y m
          then Inr (y, m, d)
          else Inl ValueError)"

section \<open>Validation\<close>

definition valid_sizes :: "string set" where
  "valid_sizes = {''S'', ''M'', ''L''}"

definition valid_providers :: "string set" where
  "valid_providers = {''LP'', ''MR''}"

definition check_transaction :: "string \<Rightarrow> string list" where
  "check_transaction transaction =
     (let parts = str_split transaction in
      if length parts \<noteq> 3 then [transaction, ''Ignored'']
      else
        let date = parts ! 0; size = parts ! 1; provider = parts ! 2 in
        case strptime date of
          Inl err \<Rightarrow> [transaction, ''Ignored'']
        | Inr parsed \<Rightarrow>
            if size \<notin> valid_sizes \<or> provider \<notin> valid_providers
            then [transaction, ''Ignored'']
            else [date, size, provider])"

definition validate_transactions :: "string list \<Rightarrow> string list list" where
  "validate_transactions raw_transactions = map check_transaction raw_transactions"

section \<open>Prices and formatting\<close>

text \<open>The table \<^verbatim>\<open>PRICES\<close>, in cents.\<close>

definition PRICES :: "string \<rightharpoonup> (string \<rightharpoonup> int)" where
  "PRICES = [''LP'' \<mapsto> [''S'' \<mapsto> 150, ''M'' \<mapsto> 490, ''L'' \<mapsto> 690],
             ''MR'' \<mapsto> [''S'' \<mapsto> 200, ''M'' \<mapsto> 300, ''L'' \<mapsto> 400]]"

text \<open>\<^verbatim>\<open>PRICES[provider][size]\<close>: either subscript raises \<^verbatim>\<open>KeyError\<close> on a missing key.\<close>

definition price_item :: "string \<Rightarrow> string \<Rightarrow> error + int" where
  "price_item provider size' =
     (case PRICES provider of
        None \<Rightarrow> Inl (KeyError provider)
      | Some row \<Rightarrow> (case row size' of None \<Rightarrow> Inl (KeyError size') | Some v \<Rightarrow> Inr v))"

text \<open>\<^verbatim>\<open>PRICES[provider].get(size, 0.0)\<close>: only the first subscript can raise.\<close>

definition price_get :: "string \<Rightarrow> string \<Rightarrow> error + int" where
  "price_get provider size' =
     (case PRICES provider of
        None \<Rightarrow> Inl (KeyError provider)
      | Some row \<Rightarrow> (case row size' of None \<Rightarrow> Inr 0 | Some v \<Rightarrow> Inr v))"

definition digit_char :: "nat \<Rightarrow> char" where
  "digit_char n = ''0123456789'' ! n"

fun str_nat :: "nat \<Rightarrow> string" where
  "str_nat n = (if n < 10 then [digit_char n] else str_nat (n div 10) @ [digit_char (n mod 10)])"

declare str_nat.simps [simp del]

text \<open>The format \<^verbatim>\<open>{x:.2f}\<close> of an amount of cents: sign, whole units, a point and
  two digits.\<close>

definition format_2f :: "int \<Rightarrow> string" where
  "format_2f cents =
     (let a = nat \<bar>cents\<bar> in
      (if cents < 0 then ''-'' else []) @ str_nat (a div 100) @ ''.''
        @ [digit_char (a mod 100 div 10), digit_char (a mod 10)])"

section \<open>The discount engine\<close>

text \<open>
  \<^verbatim>\<open>tracking_data\<close> is a \<^verbatim>\<open>defaultdict\<close> from year-month keys to a dictionary with
  the two entries \<^verbatim>\<open>L_LP_count\<close> and \<^verbatim>\<open>discount\<close>. Reading a missing key yields the
  default record and inserts it; every path of \<^verbatim>\<open>calculate_discount\<close> that reads a key
  also writes it, so the read is \<open>lookup_month\<close> and the write a map update.
\<close>

record month_record =
  L_LP_count :: int
  discount :: int

type_synonym tracking = "string \<rightharpoonup> month_record"

definition default_record :: month_record where
  "default_record = \<lparr>L_LP_count = 0, discount = 0\<rparr>"

definition lookup_month :: "tracking \<Rightarrow> string \<Rightarrow> month_record" where
  "lookup_month tracking_data year_month =
     (case tracking_data year_month of None \<Rightarrow> default_record | Some r \<Rightarrow> r)"

definition monthly_limit :: int where
  "monthly_limit = 1000"

text \<open>The parameter \<^verbatim>\<open>size\<close> is written \<open>size'\<close>. The result is
  \<^verbatim>\<open>(new_price, discount_amount)\<close> and the dictionary after the call. A table entry
  read twice in a branch of the source is read once here.\<close>

definition calculate_discount ::
  "string \<Rightarrow> string \<Rightarrow> string \<Rightarrow> tracking \<Rightarrow> error + ((int \<times> int) \<times> tracking)" where
  "calculate_discount size' provider year_month tracking_data =
     (if size' = ''L'' \<and> provider = ''LP'' then
        (let rec0 = lookup_month tracking_data year_month;
             rec1 = rec0\<lparr>L_LP_count := L_LP_count rec0 + 1\<rparr>;
             current_count = L_LP_count rec1
         in case price_item provider ''L'' of
              Inl err \<Rightarrow> Inl err
            | Inr price_L \<Rightarrow>
                if current_count = 3 then
                  (let discount_amount = price_L;
                       total_discount = discount rec1 + discount_amount
                   in if total_discount > monthly_limit then
                        (let discount_amount = monthly_limit - discount rec1;
                             rec2 = rec1\<lparr>discount := discount rec1 + discount_amount\<rparr>;
                             new_price = price_L - discount_amount
                         in Inr ((new_price, discount_amount), tracking_data(year_month \<mapsto> rec2)))
                      else
                        (let rec2 = rec1\<lparr>discount := discount rec1 + discount_amount\<rparr>
                         in Inr ((0, discount_amount), tracking_data(year_month \<mapsto> rec2))))
                else Inr ((price_L, 0), tracking_data(year_month \<mapsto> rec1)))
      else if size' = ''S'' then
        (case price_item ''LP'' ''S'' of
           Inl err \<Rightarrow> Inl err
         | Inr lp_s \<Rightarrow>
        (case price_item ''MR'' ''S'' of
           Inl err \<Rightarrow> Inl err
         | Inr mr_s \<Rightarrow>
        (case price_item provider ''S'' of
           Inl err \<Rightarrow> Inl err
         | Inr price_S \<Rightarrow>
             (let lowest_price_size_s = min lp_s mr_s;
                  discount_amount = price_S - lowest_price_size_s
              in if discount_amount \<noteq> 0 then
                   (let rec0 = lookup_month tracking_data year_month
                    in if discount rec0 + discount_amount > monthly_limit then
                         (let discount_amount = monthly_limit - discount rec0;
                              rec1 = rec0\<lparr>discount := discount rec0 + discount_amount\<rparr>;
                              new_price = price_S - discount_amount
                          in Inr ((new_price, discount_amount), tracking_data(year_month \<mapsto> rec1)))
                       else
                         (let rec1 = rec0\<lparr>discount := discount rec0 + discount_amount\<rparr>
                          in Inr ((lowest_price_size_s, discount_amount),
                                  tracking_data(year_month \<mapsto> rec1))))
                 else Inr ((price_S, 0), tracking_data)))))
      else
        (case price_get provider size' of
           Inl err \<Rightarrow> Inl err
         | Inr price \<Rightarrow> Inr ((price, 0), tracking_data)))"

section \<open>Processing\<close>

text \<open>
  What one iteration of the loop of \<^verbatim>\<open>process_transactions\<close> computes before it
  formats: the joined text of an ignored entry, the figures of a priced one (base
  price, new price, discount), or nothing when neither test of the loop body holds.
\<close>

datatype outcome =
    Ignored string
  | Priced string string string int int int
  | Nothing

definition process_entry :: "tracking \<Rightarrow> string list \<Rightarrow> error + (outcome \<times> tracking)" where
  "process_entry tracking_data entry =
     (if length entry > 0 \<and> last entry = ''Ignored'' then
        Inr (Ignored (str_join '' '' (map str_strip entry)), tracking_data)
      else if length entry = 3 then
        (let date = entry ! 0; size = entry ! 1; provider = entry ! 2;
             year_month = take 7 date
         in case price_get provider size of
              Inl err \<Rightarrow> Inl err
            | Inr price \<Rightarrow>
                (case calculate_discount size provider year_month tracking_data of
                   Inl err \<Rightarrow> Inl err
                 | Inr ((new_price, discount_amount), tracking_data') \<Rightarrow>
                     Inr (Priced date size provider price new_price discount_amount,
                          tracking_data')))
      else Inr (Nothing, tracking_data))"

text \<open>The lines an iteration appends to \<^verbatim>\<open>processed_transactions\<close>.\<close>

fun render :: "outcome \<Rightarrow> string list" where
  "render (Ignored cleaned_transaction) = [cleaned_transaction]"
| "render (Priced date size' provider price new_price discount_amount) =
     (if new_price = price \<and> discount_amount = 0
      then [date @ '' '' @ size' @ '' '' @ provider @ '' '' @ format_2f price @ '' -'']
      else [date @ '' '' @ size' @ '' '' @ provider @ '' '' @ format_2f new_price
              @ '' '' @ format_2f discount_amount])"
| "render Nothing = []"

fun process_loop :: "tracking \<Rightarrow> string list list \<Rightarrow> error + (outcome list \<times> tracking)" where
  "process_loop tracking_data [] = Inr ([], tracking_data)"
| "process_loop tracking_data (entry # rest) =
     (case process_entry tracking_data entry of
        Inl err \<Rightarrow> Inl err
      | Inr (out, tracking_data') \<Rightarrow>
          (case process_loop tracking_data' rest of
             Inl err \<Rightarrow> Inl err
           | Inr (outs, final) \<Rightarrow> Inr (out # outs, final)))"

definition process_transactions :: "string list list \<Rightarrow> error + string list" where
  "process_transactions transactions =
     (case process_loop Map.empty transactions of
        Inl err \<Rightarrow> Inl err
      | Inr (outs, final) \<Rightarrow> Inr (concat (map render outs)))"

text \<open>\<^verbatim>\<open>main\<close> without its reading and printing: validation, then processing.\<close>

definition pipeline :: "string list \<Rightarrow> error + string list" where
  "pipeline raw_transactions = process_transactions (validate_transactions raw_transactions)"

section \<open>Quantities the properties speak about\<close>

text \<open>The discount an iteration granted to the month \<open>year_month\<close>: the
  \<^verbatim>\<open>discount_amount\<close> of a priced entry whose date starts with that key.\<close>

fun discount_applied :: "string \<Rightarrow> outcome \<Rightarrow> int" where
  "discount_applied year_month (Priced date size' provider price new_price discount_amount) =
     (if take 7 date = year_month then discount_amount else 0)"
| "discount_applied year_month (Ignored cleaned_transaction) = 0"
| "discount_applied year_month Nothing = 0"

definition month_discounts :: "string \<Rightarrow> outcome list \<Rightarrow> int" where
  "month_discounts year_month outs = sum_list (map (discount_applied year_month) outs)"

text \<open>The entries that take the first branch of \<^verbatim>\<open>calculate_discount\<close> for the month
  \<open>year_month\<close>: priced triples of size L and provider LP.\<close>

definition is_L_LP :: "string \<Rightarrow> string list \<Rightarrow> bool" where
  "is_L_LP year_month entry =
     (length entry = 3 \<and> entry ! 1 = ''L'' \<and> entry ! 2 = ''LP'' \<and> take 7 (entry ! 0) = year_month)"

definition count_L_LP :: "string \<Rightarrow> string list list \<Rightarrow> int" where
  "count_L_LP year_month entries = int (length (filter (is_L_LP year_month) entries))"

text \<open>The outcomes in which the third-shipment rule granted something to the month.\<close>

fun rule_A_granted :: "string \<Rightarrow> outcome \<Rightarrow> bool" where
  "rule_A_granted year_month (Priced date size' provider price new_price discount_amount) =
     (size' = ''L'' \<and> provider = ''LP'' \<and> take 7 date = year_month \<and> discount_amount \<noteq> 0)"
| "rule_A_granted year_month (Ignored cleaned_transaction) = False"
| "rule_A_granted year_month Nothing = False"

text \<open>The shape \<^verbatim>\<open>x.xx\<close> of a formatted amount: an optional sign, at least one digit,
  a point, two digits.\<close>

definition two_decimals :: "string \<Rightarrow> bool" where
  "two_decimals s =
     (let body = (if s \<noteq> [] \<and> hd s = CHR ''-'' then tl s else s); n = length body
      in 4 \<le> n \<and> list_all is_digit (take (n - 3) body) \<and> body ! (n - 3) = CHR ''.''
         \<and> is_digit (body ! (n - 2)) \<and> is_digit (body ! (n - 1)))"

text \<open>The strict form YYYY-MM-DD that the comment in \<^verbatim>\<open>check_transaction\<close> names: four
  digits, a dash, two digits, a dash, two digits.\<close>

definition iso_form :: "string \<Rightarrow> bool" where
  "iso_form s =
     (length s = 10 \<and> list_all is_digit (take 4 s) \<and> s ! 4 = CHR ''-''
      \<and> list_all is_digit (take 2 (drop 5 s)) \<and> s ! 7 = CHR ''-''
      \<and> list_all is_digit (drop 8 s))"

text \<open>How an outcome of the loop answers a raw line: an ignored outcome carries the
  stripped line followed by the marker and the validator rejected the line; a priced
  outcome carries the three fields the validator returned.\<close>

fun outcome_of_line :: "string \<Rightarrow> outcome \<Rightarrow> bool" where
  "outcome_of_line line (Ignored cleaned_transaction) =
     (check_transaction line = [line, ''Ignored'']
      \<and> cleaned_transaction = str_strip line @ '' Ignored'')"
| "outcome_of_line line (Priced date size' provider price new_price discount_amount) =
     (check_transaction line = [date, size', provider])"
| "outcome_of_line line Nothing = False"

text \<open>An outcome and the single line it is rendered to.\<close>

definition rendered_as :: "outcome \<Rightarrow> string \<Rightarrow> bool" where
  "rendered_as out line = (render out = [line])"

text \<open>The year, month and day that a string of the strict form denotes, and what the
  date type accepts as a date of the calendar: a year from 1 on, a month from 1 to 12
  and a day of that month, February having 29 days in leap years.\<close>

definition iso_fields :: "string \<Rightarrow> nat \<times> nat \<times> nat" where
  "iso_fields s =
     (1000 * digit_val (s ! 0) + 100 * digit_val (s ! 1) + 10 * digit_val (s ! 2) + digit_val (s ! 3),
      10 * digit_val (s ! 5) + digit_val (s ! 6),
      10 * digit_val (s ! 8) + digit_val (s ! 9))"

fun calendar_date :: "nat \<times> nat \<times> nat \<Rightarrow> bool" where
  "calendar_date (year, month, day) =
     (1 \<le> year \<and> 1 \<le> month \<and> month \<le> 12 \<and> 1 \<le> day \<and> day \<le> days_in_month year month)"

section \<open>The price table\<close>

lemma price_item_LP_L: "price_item ''LP'' ''L'' = Inr 690"
  by (simp add: price_item_def PRICES_def)
lemma price_item_LP_S: "price_item ''LP'' ''S'' = Inr 150"
  by (simp add: price_item_def PRICES_def)
lemma price_item_MR_S: "price_item ''MR'' ''S'' = Inr 200"
  by (simp add: price_item_def PRICES_def)

lemma price_item_S_cases:
  "price_item provider ''S'' = Inr base \<Longrightarrow>
     (provider = ''LP'' \<and> base = 150) \<or> (provider = ''MR'' \<and> base = 200)"
  by (auto simp: price_item_def PRICES_def split: if_splits option.splits)

section \<open>One call of the engine\<close>

lemma lookup_month_upd:
  "lookup_month (td(ym \<mapsto> r)) ym' = (if ym' = ym then r else lookup_month td ym')"
  by (simp add: lookup_month_def)

lemma calculate_discount_other:
  assumes "calculate_discount s p ym td = Inr (r, td')" and "ym' \<noteq> ym"
  shows "td' ym' = td ym'"
  using assms
  by (auto simp: calculate_discount_def Let_def split: if_splits sum.splits)

lemma calculate_discount_used:
  assumes "calculate_discount s p ym td = Inr ((np, d), td')"
  shows "discount (lookup_month td' ym) = discount (lookup_month td ym) + d"
  using assms
  by (auto simp: calculate_discount_def Let_def lookup_month_upd split: if_splits sum.splits)

lemma calculate_discount_granted:
  assumes "calculate_discount s p ym td = Inr ((np, d), td')"
    and "discount (lookup_month td ym) \<le> 1000"
  shows "0 \<le> d \<and> discount (lookup_month td ym) + d \<le> 1000"
proof (cases "s = ''L'' \<and> p = ''LP''")
  case True
  then show ?thesis using assms
    by (auto simp: calculate_discount_def Let_def price_item_LP_L monthly_limit_def split: if_splits)
next
  case False
  show ?thesis
  proof (cases "s = ''S''")
    case True
    then obtain base where b: "price_item p ''S'' = Inr base"
      using assms(1) by (auto simp: calculate_discount_def split: sum.splits)
    from price_item_S_cases [OF b] show ?thesis using assms True b
      by (auto simp: calculate_discount_def Let_def price_item_LP_S price_item_MR_S monthly_limit_def split: if_splits)
  next
    case False
    with \<open>\<not> (s = ''L'' \<and> p = ''LP'')\<close> show ?thesis using assms
      by (auto simp: calculate_discount_def split: sum.splits)
  qed
qed

lemma calculate_discount_count:
  assumes "calculate_discount s p ym td = Inr (r, td')"
  shows "L_LP_count (lookup_month td' ym)
           = L_LP_count (lookup_month td ym) + (if s = ''L'' \<and> p = ''LP'' then 1 else 0)"
  using assms
  by (auto simp: calculate_discount_def Let_def lookup_month_upd split: if_splits sum.splits)

lemma calculate_discount_L_LP:
  "calculate_discount ''L'' ''LP'' ym td =
     (let used = discount (lookup_month td ym);
          d = (if L_LP_count (lookup_month td ym) + 1 = 3 then min 690 (1000 - used) else 0)
      in Inr ((690 - d, d),
              td(ym \<mapsto> \<lparr>L_LP_count = L_LP_count (lookup_month td ym) + 1, discount = used + d\<rparr>)))"
  by (auto simp: calculate_discount_def Let_def price_item_LP_L monthly_limit_def)

lemma calculate_discount_valid:
  assumes "s \<in> valid_sizes" and "p \<in> valid_providers"
  shows "\<exists>price np d td'. price_get p s = Inr price \<and>
           calculate_discount s p ym td = Inr ((np, d), td') \<and> (d = 0 \<longrightarrow> np = price)"
  using assms
  by (auto simp: valid_sizes_def valid_providers_def calculate_discount_def Let_def
        price_get_def price_item_def PRICES_def monthly_limit_def)

section \<open>One iteration of the loop\<close>

lemma process_entry_triple:
  "c \<noteq> ''Ignored'' \<Longrightarrow>
   process_entry td [a, b, c] =
     (case price_get c b of
        Inl err \<Rightarrow> Inl err
      | Inr price \<Rightarrow>
          (case calculate_discount b c (take 7 a) td of
             Inl err \<Rightarrow> Inl err
           | Inr ((np, d), td') \<Rightarrow> Inr (Priced a b c price np d, td')))"
  by (simp add: process_entry_def Let_def)

lemma length_3_conv: "length xs = 3 \<longleftrightarrow> (\<exists>a b c. xs = [a, b, c])"
  by (auto simp: length_Suc_conv numeral_3_eq_3)

lemma process_entry_cases:
  assumes "process_entry td e = Inr (out, td')"
  obtains (ignored) "e \<noteq> []" and "last e = ''Ignored''" and "td' = td"
      and "out = Ignored (str_join '' '' (map str_strip e))"
    | (nothing) "length e \<noteq> 3" and "td' = td" and "out = Nothing"
    | (priced) a b c price np d where "e = [a, b, c]" and "c \<noteq> ''Ignored''"
      and "price_get c b = Inr price"
      and "calculate_discount b c (take 7 a) td = Inr ((np, d), td')"
      and "out = Priced a b c price np d"
proof (cases "e \<noteq> [] \<and> last e = ''Ignored''")
  case True
  then have "td' = td \<and> out = Ignored (str_join '' '' (map str_strip e))"
    using assms by (auto simp: process_entry_def)
  with True show ?thesis using ignored by blast
next
  case False
  show ?thesis
  proof (cases "length e = 3")
    case True
    then obtain a b c where e: "e = [a, b, c]" by (auto simp: length_3_conv)
    with False have c: "c \<noteq> ''Ignored''" by simp
    have "\<exists>price np d. price_get c b = Inr price
            \<and> calculate_discount b c (take 7 a) td = Inr ((np, d), td')
            \<and> out = Priced a b c price np d"
      using assms c unfolding e
      by (auto simp: process_entry_triple split: sum.splits)
    with e c show ?thesis using priced by blast
  next
    case False
    with \<open>\<not> (e \<noteq> [] \<and> last e = ''Ignored'')\<close> have "td' = td" and "out = Nothing"
      using assms by (auto simp: process_entry_def)
    with False show ?thesis by (rule nothing)
  qed
qed

lemma process_entry_other:
  assumes "process_entry td e = Inr (out, td')"
  shows "discount (lookup_month td' ym) = discount (lookup_month td ym) + discount_applied ym out
       \<and> L_LP_count (lookup_month td' ym)
           = L_LP_count (lookup_month td ym) + (if is_L_LP ym e then 1 else 0)"
  using assms
proof (cases rule: process_entry_cases)
  case ignored
  then show ?thesis
    by (auto simp: is_L_LP_def length_3_conv)
next
  case nothing
  then show ?thesis by (simp add: is_L_LP_def)
next
  case (priced a b c price np d)
  note e = priced(1) and calc = priced(4) and out = priced(5)
  show ?thesis
  proof (cases "take 7 a = ym")
    case True
    then show ?thesis
      using calculate_discount_used [OF calc] calculate_discount_count [OF calc] e out
      by (auto simp: is_L_LP_def)
  next
    case False
    then have "td' ym = td ym"
      using calculate_discount_other [OF calc, of ym] by simp
    then show ?thesis using False e out
      by (simp add: lookup_month_def is_L_LP_def)
  qed
qed

lemma process_entry_bound:
  assumes "process_entry td e = Inr (out, td')"
    and "discount (lookup_month td ym) \<le> 1000"
  shows "0 \<le> discount_applied ym out \<and> discount (lookup_month td' ym) \<le> 1000"
  using assms(1)
proof (cases rule: process_entry_cases)
  case (priced a b c price np d)
  note e = priced(1) and calc = priced(4) and out = priced(5)
  show ?thesis
  proof (cases "take 7 a = ym")
    case True
    then show ?thesis
      using calculate_discount_granted [OF calc] calculate_discount_used [OF calc] assms(2) out
      by auto
  next
    case False
    then have "td' ym = td ym"
      using calculate_discount_other [OF calc, of ym] by simp
    then show ?thesis using False out assms(2)
      by (simp add: lookup_month_def)
  qed
qed (use assms(2) in auto)

section \<open>The whole pass\<close>

lemma process_loop_append:
  "process_loop td (xs @ ys) =
     (case process_loop td xs of
        Inl err \<Rightarrow> Inl err
      | Inr (outs1, td1) \<Rightarrow>
          (case process_loop td1 ys of
             Inl err \<Rightarrow> Inl err
           | Inr (outs2, td2) \<Rightarrow> Inr (outs1 @ outs2, td2)))"
  by (induction xs arbitrary: td) (auto split: sum.splits)

lemma process_loop_length:
  "process_loop td es = Inr (outs, td') \<Longrightarrow> length outs = length es"
  by (induction es arbitrary: td outs) (auto split: sum.splits)

lemma process_loop_budget:
  assumes "process_loop td es = Inr (outs, td')"
    and "discount (lookup_month td ym) \<le> 1000"
  shows "discount (lookup_month td' ym) = discount (lookup_month td ym) + month_discounts ym outs
       \<and> 0 \<le> month_discounts ym outs \<and> discount (lookup_month td' ym) \<le> 1000"
  using assms
proof (induction es arbitrary: td outs)
  case Nil
  then show ?case by (simp add: month_discounts_def)
next
  case (Cons e es)
  from Cons.prems(1) obtain out td1 outs1 where
    step: "process_entry td e = Inr (out, td1)" and
    rest: "process_loop td1 es = Inr (outs1, td')" and
    outs: "outs = out # outs1"
    by (auto split: sum.splits)
  note b = process_entry_bound [OF step Cons.prems(2)]
  note o = process_entry_other [OF step, of ym]
  from b have "discount (lookup_month td1 ym) \<le> 1000" by simp
  from Cons.IH [OF rest this] b o show ?case
    by (simp add: outs month_discounts_def)
qed

lemma process_loop_count:
  assumes "process_loop td es = Inr (outs, td')"
  shows "L_LP_count (lookup_month td' ym) = L_LP_count (lookup_month td ym) + count_L_LP ym es"
  using assms
proof (induction es arbitrary: td outs)
  case Nil
  then show ?case by (simp add: count_L_LP_def)
next
  case (Cons e es)
  from Cons.prems(1) obtain out td1 outs1 where
    step: "process_entry td e = Inr (out, td1)" and
    rest: "process_loop td1 es = Inr (outs1, td')"
    by (auto split: sum.splits)
  from Cons.IH [OF rest] process_entry_other [OF step, of ym] show ?case
    by (simp add: count_L_LP_def)
qed

lemma lookup_month_empty: "lookup_month Map.empty ym = \<lparr>L_LP_count = 0, discount = 0\<rparr>"
  by (simp add: lookup_month_def default_record_def)

text \<open>The definitions a concrete pass is evaluated with.\<close>

lemmas eval_defs = process_entry_def calculate_discount_def price_get_def price_item_def
  PRICES_def lookup_month_def default_record_def monthly_limit_def Let_def

lemma price_get_LP_L: "price_get ''LP'' ''L'' = Inr 690"
  by (simp add: price_get_def PRICES_def)

lemma process_entry_L_LP:
  "process_entry td [date, ''L'', ''LP''] =
     (let used = discount (lookup_month td (take 7 date));
          d = (if L_LP_count (lookup_month td (take 7 date)) + 1 = 3 then min 690 (1000 - used) else 0)
      in Inr (Priced date ''L'' ''LP'' 690 (690 - d) d,
              td(take 7 date \<mapsto> \<lparr>L_LP_count = L_LP_count (lookup_month td (take 7 date)) + 1,
                                     discount = used + d\<rparr>)))"
  by (simp add: process_entry_triple price_get_LP_L calculate_discount_L_LP Let_def)

lemma process_entry_rule_A:
  assumes "process_entry td e = Inr (out, td')" and "rule_A_granted ym out"
  shows "L_LP_count (lookup_month td ym) = 2 \<and> is_L_LP ym e"
  using assms(1)
proof (cases rule: process_entry_cases)
  case (priced a b c price np d)
  with assms(2) have "b = ''L''" "c = ''LP''" "take 7 a = ym" "d \<noteq> 0" by simp_all
  with priced(1,4) show ?thesis
    by (auto simp: calculate_discount_L_LP Let_def is_L_LP_def split: if_splits)
qed (use assms(2) in simp_all)

lemma process_loop_rule_A_once:
  assumes "process_loop td es = Inr (outs, td')"
  shows "length (filter (rule_A_granted ym) outs)
           \<le> (if L_LP_count (lookup_month td ym) < 3 then 1 else 0)"
  using assms
proof (induction es arbitrary: td outs)
  case Nil
  then show ?case by simp
next
  case (Cons e es)
  from Cons.prems obtain out td1 outs1 where
    step: "process_entry td e = Inr (out, td1)" and
    rest: "process_loop td1 es = Inr (outs1, td')" and
    outs: "outs = out # outs1"
    by (auto split: sum.splits)
  note cnt = process_entry_other [OF step, of ym]
  note ih = Cons.IH [OF rest]
  show ?case
  proof (cases "rule_A_granted ym out")
    case True
    from process_entry_rule_A [OF step True] cnt ih show ?thesis
      by (simp add: outs True split: if_splits)
  next
    case False
    with cnt ih show ?thesis
      by (simp add: outs split: if_splits)
  qed
qed

section \<open>The validator's results\<close>

lemma check_transaction_shape:
  "check_transaction t = [t, ''Ignored'']
   \<or> (\<exists>d s p. check_transaction t = [d, s, p] \<and> str_split t = [d, s, p]
         \<and> s \<in> valid_sizes \<and> p \<in> valid_providers \<and> (\<exists>r. strptime d = Inr r))"
proof (cases "length (str_split t) = 3")
  case True
  then obtain d s p where parts: "str_split t = [d, s, p]" by (auto simp: length_3_conv)
  then show ?thesis
    by (auto simp: check_transaction_def Let_def split: sum.splits)
next
  case False
  then show ?thesis by (simp add: check_transaction_def Let_def)
qed

lemma str_strip_Ignored: "str_strip ''Ignored'' = ''Ignored''"
  by (simp add: str_strip_def is_space_def)

lemma process_entry_ignored:
  "process_entry td [t, ''Ignored''] = Inr (Ignored (str_strip t @ '' Ignored''), td)"
  by (simp add: process_entry_def str_strip_Ignored)

lemma valid_provider_not_marker: "p \<in> valid_providers \<Longrightarrow> p \<noteq> ''Ignored''"
  by (auto simp: valid_providers_def)

lemma process_entry_valid:
  assumes "s \<in> valid_sizes" and "p \<in> valid_providers"
  shows "\<exists>price np d td'. process_entry td [dt, s, p] = Inr (Priced dt s p price np d, td')
           \<and> price_get p s = Inr price
           \<and> calculate_discount s p (take 7 dt) td = Inr ((np, d), td')
           \<and> (d = 0 \<longrightarrow> np = price)"
proof -
  from calculate_discount_valid [OF assms, of "take 7 dt" td] obtain price np d td' where
    "price_get p s = Inr price" "calculate_discount s p (take 7 dt) td = Inr ((np, d), td')"
    "d = 0 \<longrightarrow> np = price" by blast
  then show ?thesis
    using valid_provider_not_marker [OF assms(2)] by (simp add: process_entry_triple)
qed

lemma render_single: "out \<noteq> Nothing \<Longrightarrow> \<exists>line. render out = [line]"
  by (cases out) auto

lemma process_entry_validated:
  "\<exists>out td' line. process_entry td (check_transaction t) = Inr (out, td')
      \<and> outcome_of_line t out \<and> render out = [line]"
proof -
  from check_transaction_shape [of t] show ?thesis
  proof
    assume inv: "check_transaction t = [t, ''Ignored'']"
    then show ?thesis by (simp add: process_entry_ignored)
  next
    assume "\<exists>d s p. check_transaction t = [d, s, p] \<and> str_split t = [d, s, p]
         \<and> s \<in> valid_sizes \<and> p \<in> valid_providers \<and> (\<exists>r. strptime d = Inr r)"
    then obtain d s p where v: "check_transaction t = [d, s, p]"
      "s \<in> valid_sizes" "p \<in> valid_providers" by blast
    from process_entry_valid [OF v(2,3), of td d] obtain price np disc td' where
      pe: "process_entry td [d, s, p] = Inr (Priced d s p price np disc, td')" by blast
    from render_single [of "Priced d s p price np disc"] obtain line where
      "render (Priced d s p price np disc) = [line]" by auto
    with pe v(1) show ?thesis by simp
  qed
qed

lemma validated_run:
  "\<exists>outs td'. process_loop td (validate_transactions lines) = Inr (outs, td')
      \<and> list_all2 outcome_of_line lines outs
      \<and> list_all2 rendered_as outs (concat (map render outs))"
proof (induction lines arbitrary: td)
  case Nil
  then show ?case by (simp add: validate_transactions_def)
next
  case (Cons t lines)
  from process_entry_validated [of td t] obtain out td1 line where
    step: "process_entry td (check_transaction t) = Inr (out, td1)"
    and ol: "outcome_of_line t out" and r: "render out = [line]" by blast
  from Cons [of td1] obtain outs td' where
    rest: "process_loop td1 (validate_transactions lines) = Inr (outs, td')"
    and a: "list_all2 outcome_of_line lines outs"
    and b: "list_all2 rendered_as outs (concat (map render outs))" by blast
  have "process_loop td (validate_transactions (t # lines)) = Inr (out # outs, td')"
    using step rest by (simp add: validate_transactions_def)
  moreover have "list_all2 outcome_of_line (t # lines) (out # outs)"
    using ol a by simp
  moreover have "list_all2 rendered_as (out # outs) (concat (map render (out # outs)))"
    using r b by (simp add: rendered_as_def)
  ultimately show ?case by blast
qed

lemma outcome_of_line_Nothing: "list_all2 outcome_of_line lines outs \<Longrightarrow> Nothing \<notin> set outs"
  by (induction rule: list_all2_induct) auto

section \<open>Formatting\<close>

lemma is_digit_digit_char: "k < 10 \<Longrightarrow> is_digit (digit_char k)"
proof -
  assume "k < 10"
  then have "k \<in> {0, 1, 2, 3, 4, 5, 6, 7, 8, 9}" by auto
  then show ?thesis
    by (auto simp: digit_char_def is_digit_def eval_nat_numeral)
qed

lemma str_nat_digits: "str_nat n \<noteq> [] \<and> list_all is_digit (str_nat n)"
proof (induction n rule: str_nat.induct)
  case (1 n)
  show ?case
  proof (cases "n < 10")
    case True
    then show ?thesis by (subst (1 2) str_nat.simps) (simp add: is_digit_digit_char)
  next
    case False
    with 1 show ?thesis by (subst (1 2) str_nat.simps) (simp add: is_digit_digit_char)
  qed
qed

lemma is_digit_not_dash: "is_digit c \<Longrightarrow> c \<noteq> CHR ''-''"
  by (auto simp: is_digit_def)

lemma two_decimals_body:
  assumes "ds \<noteq> []" and "list_all is_digit ds" and "is_digit a" and "is_digit b"
  shows "two_decimals (ds @ ''.'' @ [a, b])" and "two_decimals (''-'' @ ds @ ''.'' @ [a, b])"
proof -
  from assms(1) obtain x xs where ds: "ds = x # xs" by (cases ds) auto
  with assms(2) have x: "x \<noteq> CHR ''-''" by (simp add: is_digit_not_dash)
  have n: "length (ds @ ''.'' @ [a, b]) - 3 = length ds" by simp
  have nth: "(ds @ ''.'' @ [a, b]) ! length ds = CHR ''.''"
    "(ds @ ''.'' @ [a, b]) ! (length ds + 1) = a"
    "(ds @ ''.'' @ [a, b]) ! (length ds + 2) = b"
    by (simp_all add: nth_append)
  have body: "4 \<le> length (ds @ ''.'' @ [a, b])
      \<and> list_all is_digit (take (length (ds @ ''.'' @ [a, b]) - 3) (ds @ ''.'' @ [a, b]))
      \<and> (ds @ ''.'' @ [a, b]) ! (length (ds @ ''.'' @ [a, b]) - 3) = CHR ''.''
      \<and> is_digit ((ds @ ''.'' @ [a, b]) ! (length (ds @ ''.'' @ [a, b]) - 2))
      \<and> is_digit ((ds @ ''.'' @ [a, b]) ! (length (ds @ ''.'' @ [a, b]) - 1))"
    using assms ds nth by (simp add: nth_append)
  show "two_decimals (ds @ ''.'' @ [a, b])"
    unfolding two_decimals_def Let_def using body x ds by simp
  show "two_decimals (''-'' @ ds @ ''.'' @ [a, b])"
    unfolding two_decimals_def Let_def using body by simp
qed

lemma two_decimals_format_2f: "two_decimals (format_2f c)"
proof -
  let ?a = "nat \<bar>c\<bar>"
  have d: "is_digit (digit_char (?a mod 100 div 10))" "is_digit (digit_char (?a mod 10))"
    by (simp_all add: is_digit_digit_char)
  note b = two_decimals_body [OF conjunct1 [OF str_nat_digits] conjunct2 [OF str_nat_digits] d,
      of "?a div 100"]
  show ?thesis
    using b by (cases "c < 0") (simp_all add: format_2f_def Let_def)
qed

section \<open>Entries of different months\<close>

lemma calculate_discount_frame:
  assumes "ym \<noteq> ym'"
  shows "calculate_discount s p ym (td(ym' := v)) =
           (case calculate_discount s p ym td of
              Inl err \<Rightarrow> Inl err
            | Inr (r, t) \<Rightarrow> Inr (r, t(ym' := v)))"
proof -
  have l: "lookup_month (td(ym' := v)) ym = lookup_month td ym"
    using assms by (simp add: lookup_month_def)
  have t: "\<And>x. (td(ym' := v))(ym \<mapsto> x) = (td(ym \<mapsto> x))(ym' := v)"
    using assms by (simp add: fun_upd_twist)
  show ?thesis
    unfolding calculate_discount_def l t Let_def
    by (simp split: sum.splits)
qed

lemma calculate_discount_touch:
  assumes "calculate_discount s p ym td = Inr (r, td')"
  shows "td' = td(ym := td' ym)"
  using assms
  by (auto simp: calculate_discount_def Let_def split: if_splits sum.splits)

lemma calculate_discount_commute:
  assumes c1: "calculate_discount s1 p1 ym1 td = Inr (r1, td1)"
    and c2: "calculate_discount s2 p2 ym2 td1 = Inr (r2, td2)"
    and ne: "ym1 \<noteq> ym2"
  shows "\<exists>t. calculate_discount s2 p2 ym2 td = Inr (r2, t)
            \<and> calculate_discount s1 p1 ym1 t = Inr (r1, td2)"
proof -
  have ne': "ym2 \<noteq> ym1" using ne by simp
  have td1: "td1 = td(ym1 := td1 ym1)" by (rule calculate_discount_touch [OF c1])
  have "calculate_discount s2 p2 ym2 (td(ym1 := td1 ym1)) = Inr (r2, td2)"
    using c2 td1 by simp
  then obtain t where t: "calculate_discount s2 p2 ym2 td = Inr (r2, t)"
    and td2: "td2 = t(ym1 := td1 ym1)"
    unfolding calculate_discount_frame [OF ne'] by (auto split: sum.splits)
  have tt: "t = td(ym2 := t ym2)" by (rule calculate_discount_touch [OF t])
  have "calculate_discount s1 p1 ym1 (td(ym2 := t ym2)) = Inr (r1, td1(ym2 := t ym2))"
    unfolding calculate_discount_frame [OF ne] using c1 by simp
  then have "calculate_discount s1 p1 ym1 t = Inr (r1, td1(ym2 := t ym2))"
    using tt by simp
  moreover have "td1(ym2 := t ym2) = td2"
  proof -
    have "td1(ym2 := t ym2) = (td(ym1 := td1 ym1))(ym2 := t ym2)" using td1 by simp
    also have "\<dots> = (td(ym2 := t ym2))(ym1 := td1 ym1)" using ne by (simp add: fun_upd_twist)
    also have "\<dots> = t(ym1 := td1 ym1)" using tt by simp
    finally show ?thesis using td2 by simp
  qed
  ultimately show ?thesis using t by simp
qed

lemma process_entry_commute:
  assumes e1: "process_entry td [d1, s1, p1] = Inr (a, td1)"
    and e2: "process_entry td1 [d2, s2, p2] = Inr (b, td2)"
    and ne: "take 7 d1 \<noteq> take 7 d2"
    and p1: "p1 \<noteq> ''Ignored''" and p2: "p2 \<noteq> ''Ignored''"
  shows "\<exists>t. process_entry td [d2, s2, p2] = Inr (b, t)
            \<and> process_entry t [d1, s1, p1] = Inr (a, td2)"
proof -
  from e1 p1 obtain price1 np1 disc1 where
    g1: "price_get p1 s1 = Inr price1" and
    c1: "calculate_discount s1 p1 (take 7 d1) td = Inr ((np1, disc1), td1)" and
    a: "a = Priced d1 s1 p1 price1 np1 disc1"
    by (auto simp: process_entry_triple split: sum.splits)
  from e2 p2 obtain price2 np2 disc2 where
    g2: "price_get p2 s2 = Inr price2" and
    c2: "calculate_discount s2 p2 (take 7 d2) td1 = Inr ((np2, disc2), td2)" and
    b: "b = Priced d2 s2 p2 price2 np2 disc2"
    by (auto simp: process_entry_triple split: sum.splits)
  from calculate_discount_commute [OF c1 c2 ne] obtain t where
    "calculate_discount s2 p2 (take 7 d2) td = Inr ((np2, disc2), t)"
    "calculate_discount s1 p1 (take 7 d1) t = Inr ((np1, disc1), td2)" by blast
  then show ?thesis
    using g1 g2 a b p1 p2 by (simp add: process_entry_triple)
qed

section \<open>The date parser on dates of the strict form\<close>

lemma is_digit_cases:
  "is_digit c \<Longrightarrow> c = CHR ''0'' \<or> c = CHR ''1'' \<or> c = CHR ''2'' \<or> c = CHR ''3'' \<or> c = CHR ''4''
     \<or> c = CHR ''5'' \<or> c = CHR ''6'' \<or> c = CHR ''7'' \<or> c = CHR ''8'' \<or> c = CHR ''9''"
  by (simp add: is_digit_def)

lemma digit_val_simps:
  "digit_val CHR ''0'' = 0" "digit_val CHR ''1'' = 1" "digit_val CHR ''2'' = 2"
  "digit_val CHR ''3'' = 3" "digit_val CHR ''4'' = 4" "digit_val CHR ''5'' = 5"
  "digit_val CHR ''6'' = 6" "digit_val CHR ''7'' = 7" "digit_val CHR ''8'' = 8"
  "digit_val CHR ''9'' = 9"
  by (simp_all add: digit_val_def)

lemma digit_val_le: "is_digit c \<Longrightarrow> digit_val c \<le> 9"
  by (drule is_digit_cases) (auto simp: digit_val_simps)


lemma month_then:
  assumes "is_digit m1" and "is_digit m2"
  shows "concat (map (\<lambda>(m, r3). concat (map (\<lambda>r4. k m r4) (match_dash r3)))
                     (match_m (m1 # m2 # CHR ''-'' # rest)))
         = (if 1 \<le> 10 * digit_val m1 + digit_val m2 \<and> 10 * digit_val m1 + digit_val m2 \<le> 12
            then k (10 * digit_val m1 + digit_val m2) rest else [])"
  using assms [THEN is_digit_cases]
  by (elim disjE) (simp_all add: digit_val_simps match_m_def match_dash_def numeral_2_eq_2)


lemma day_first:
  assumes "is_digit d1" and "is_digit d2"
  shows "(case map (\<lambda>(d, r5). (f d, r5)) (match_d [d1, d2]) of
            [] \<Rightarrow> None | x # _ \<Rightarrow> Some x)
         = (if 1 \<le> 10 * digit_val d1 + digit_val d2 \<and> 10 * digit_val d1 + digit_val d2 \<le> 31
            then Some (f (10 * digit_val d1 + digit_val d2), [])
            else if d1 = CHR ''0'' then None else Some (f (digit_val d1), [d2]))"
  using assms [THEN is_digit_cases]
  by (elim disjE) (simp_all add: digit_val_simps match_d_def is_digit_def numeral_2_eq_2)


lemma match_dash_Cons: "match_dash (CHR ''-'' # r) = [r]"
  by (simp add: match_dash_def)

lemma regex_match_iso:
  assumes "is_digit a" "is_digit b" "is_digit c" "is_digit d"
    and "is_digit m1" "is_digit m2" "is_digit d1" "is_digit d2"
  shows "regex_match [a, b, c, d, CHR ''-'', m1, m2, CHR ''-'', d1, d2] =
     (let y = 1000 * digit_val a + 100 * digit_val b + 10 * digit_val c + digit_val d;
          m = 10 * digit_val m1 + digit_val m2;
          dd = 10 * digit_val d1 + digit_val d2
      in if 1 \<le> m \<and> m \<le> 12
         then (if 1 \<le> dd \<and> dd \<le> 31 then Some ((y, m, dd), [])
               else if d1 = CHR ''0'' then None
               else Some ((y, m, digit_val d1), [d2]))
         else None)"
  using assms(1-4)
  by (simp add: regex_match_def match_dash_Cons month_then [OF assms(5,6)]
        day_first [OF assms(7,8)] Let_def)

lemma days_in_month_le: "1 \<le> m \<Longrightarrow> m \<le> 12 \<Longrightarrow> days_in_month y m \<le> 31"
proof -
  assume "1 \<le> m" "m \<le> 12"
  then have "m = 1 \<or> m = 2 \<or> m = 3 \<or> m = 4 \<or> m = 5 \<or> m = 6 \<or> m = 7 \<or> m = 8
      \<or> m = 9 \<or> m = 10 \<or> m = 11 \<or> m = 12" by arith
  then show ?thesis
    by (elim disjE) (simp_all add: days_in_month_def)
qed

lemma strptime_iso:
  assumes "is_digit a" "is_digit b" "is_digit c" "is_digit d"
    and "is_digit m1" "is_digit m2" "is_digit d1" "is_digit d2"
  shows "strptime [a, b, c, d, CHR ''-'', m1, m2, CHR ''-'', d1, d2] =
     (if calendar_date (iso_fields [a, b, c, d, CHR ''-'', m1, m2, CHR ''-'', d1, d2])
      then Inr (iso_fields [a, b, c, d, CHR ''-'', m1, m2, CHR ''-'', d1, d2])
      else Inl ValueError)"
proof -
  let ?y = "1000 * digit_val a + 100 * digit_val b + 10 * digit_val c + digit_val d"
  let ?m = "10 * digit_val m1 + digit_val m2"
  let ?dd = "10 * digit_val d1 + digit_val d2"
  have f: "iso_fields [a, b, c, d, CHR ''-'', m1, m2, CHR ''-'', d1, d2] = (?y, ?m, ?dd)"
    by (simp add: iso_fields_def eval_nat_numeral)
  have y: "?y \<le> 9999"
    using assms(1-4) [THEN digit_val_le] by simp
  have d0: "d1 = CHR ''0'' \<Longrightarrow> ?dd \<le> 9"
    using assms(8) [THEN digit_val_le] by (simp add: digit_val_simps)
  show ?thesis
  proof (cases "1 \<le> ?m \<and> ?m \<le> 12")
    case False
    then show ?thesis
      by (auto simp: strptime_def regex_match_iso [OF assms] Let_def f)
  next
    case True
    then have dim: "days_in_month ?y ?m \<le> 31" by (simp add: days_in_month_le)
    show ?thesis
    proof (cases "1 \<le> ?dd \<and> ?dd \<le> 31")
      case True
      with \<open>1 \<le> ?m \<and> ?m \<le> 12\<close> y show ?thesis
        by (simp add: strptime_def regex_match_iso [OF assms] Let_def f)
    next
      case False
      with \<open>1 \<le> ?m \<and> ?m \<le> 12\<close> dim d0 show ?thesis
        by (auto simp: strptime_def regex_match_iso [OF assms] Let_def f)
    qed
  qed
qed

lemma iso_form_shape:
  assumes "iso_form s"
  shows "\<exists>a b c d m1 m2 d1 d2. s = [a, b, c, d, CHR ''-'', m1, m2, CHR ''-'', d1, d2]
           \<and> is_digit a \<and> is_digit b \<and> is_digit c \<and> is_digit d
           \<and> is_digit m1 \<and> is_digit m2 \<and> is_digit d1 \<and> is_digit d2"
proof -
  from assms have "length s = 10" by (simp add: iso_form_def)
  then obtain x0 x1 x2 x3 x4 x5 x6 x7 x8 x9 where
    s: "s = [x0, x1, x2, x3, x4, x5, x6, x7, x8, x9]"
    by (auto simp: eval_nat_numeral length_Suc_conv)
  with assms show ?thesis
    by (simp add: iso_form_def eval_nat_numeral)
qed

lemma check_transaction_iso:
  assumes "str_split t = [date, s, p]" and "iso_form date"
  shows "check_transaction t =
           (if calendar_date (iso_fields date) \<and> s \<in> valid_sizes \<and> p \<in> valid_providers
            then [date, s, p] else [t, ''Ignored''])"
proof -
  from iso_form_shape [OF assms(2)] obtain a b c d m1 m2 d1 d2 where
    date: "date = [a, b, c, d, CHR ''-'', m1, m2, CHR ''-'', d1, d2]" and
    dg: "is_digit a" "is_digit b" "is_digit c" "is_digit d"
        "is_digit m1" "is_digit m2" "is_digit d1" "is_digit d2" by blast
  have "strptime date = (if calendar_date (iso_fields date) then Inr (iso_fields date)
                         else Inl ValueError)"
    unfolding date by (rule strptime_iso [OF dg])
  then show ?thesis
    using assms(1) by (simp add: check_transaction_def Let_def)
qed

section \<open>The monthly cap (C5)\<close>

text \<open>
  C5. When a rule fires with a non-zero candidate discount, the candidate is cut to
  what is left of the monthly limit of 10.00. Rule A fires on the L/LP shipment that
  brings the month's count to 3; its candidate and base price are 6.90. Rule B fires
  on an S shipment whose provider's price \<open>base\<close> differs from the lowest S price
  1.50; its candidate is \<open>base - 150\<close>. In both, with \<open>used\<close> the month's
  \<^verbatim>\<open>discount\<close> before the call: if \<open>used + candidate > 1000\<close> the discount is
  \<open>1000 - used\<close>, the month's \<^verbatim>\<open>discount\<close> becomes 1000 and the price is the base
  price minus the discount; otherwise the discount is the candidate, the month's
  \<^verbatim>\<open>discount\<close> grows by it, and the price is 0 for rule A and 1.50 for rule B.
\<close>

theorem monthly_cap_clamp:
  "(L_LP_count (lookup_month td ym) + 1 = 3 \<longrightarrow>
      price_item ''LP'' ''L'' = Inr 690 \<and>
      calculate_discount ''L'' ''LP'' ym td =
        (if discount (lookup_month td ym) + 690 > 1000
         then Inr ((690 - (1000 - discount (lookup_month td ym)), 1000 - discount (lookup_month td ym)),
                   td(ym \<mapsto> \<lparr>L_LP_count = 3, discount = 1000\<rparr>))
         else Inr ((0, 690),
                   td(ym \<mapsto> \<lparr>L_LP_count = 3, discount = discount (lookup_month td ym) + 690\<rparr>))))
   \<and> (price_item provider ''S'' = Inr base \<and> base - 150 \<noteq> 0 \<longrightarrow>
      price_item ''LP'' ''S'' = Inr 150 \<and> price_item ''MR'' ''S'' = Inr 200 \<and>
      calculate_discount ''S'' provider ym td =
        (if discount (lookup_month td ym) + (base - 150) > 1000
         then Inr ((base - (1000 - discount (lookup_month td ym)), 1000 - discount (lookup_month td ym)),
                   td(ym \<mapsto> (lookup_month td ym)\<lparr>discount := 1000\<rparr>))
         else Inr ((150, base - 150),
                   td(ym \<mapsto> (lookup_month td ym)\<lparr>discount := discount (lookup_month td ym) + (base - 150)\<rparr>))))"
  by (auto simp: calculate_discount_def price_item_LP_L price_item_LP_S price_item_MR_S monthly_limit_def Let_def)

theorem monthly_cap_clamp_witness:
  "calculate_discount ''L'' ''LP'' ''2024-08'' [''2024-08'' \<mapsto> \<lparr>L_LP_count = 2, discount = 350\<rparr>]
     = Inr ((40, 650), [''2024-08'' \<mapsto> \<lparr>L_LP_count = 3, discount = 1000\<rparr>])
   \<and> calculate_discount ''S'' ''MR'' ''2024-08'' [''2024-08'' \<mapsto> \<lparr>L_LP_count = 2, discount = 350\<rparr>]
     = Inr ((150, 50), [''2024-08'' \<mapsto> \<lparr>L_LP_count = 2, discount = 400\<rparr>])
   \<and> calculate_discount ''L'' ''LP'' ''2024-08'' [''2024-08'' \<mapsto> \<lparr>L_LP_count = 2, discount = 0\<rparr>]
     = Inr ((0, 690), [''2024-08'' \<mapsto> \<lparr>L_LP_count = 3, discount = 690\<rparr>])
   \<and> calculate_discount ''S'' ''MR'' ''2024-08'' [''2024-08'' \<mapsto> \<lparr>L_LP_count = 3, discount = 990\<rparr>]
     = Inr ((190, 10), [''2024-08'' \<mapsto> \<lparr>L_LP_count = 3, discount = 1000\<rparr>])"
  using monthly_cap_clamp [of "[''2024-08'' \<mapsto> \<lparr>L_LP_count = 2, discount = 350\<rparr>]" "''2024-08''" "''MR''" 200]
        monthly_cap_clamp [of "[''2024-08'' \<mapsto> \<lparr>L_LP_count = 2, discount = 0\<rparr>]" "''2024-08''" "''MR''" 200]
        monthly_cap_clamp [of "[''2024-08'' \<mapsto> \<lparr>L_LP_count = 3, discount = 990\<rparr>]" "''2024-08''" "''MR''" 200]
  by (simp add: lookup_month_def price_item_MR_S)

section \<open>Small shipments (C6)\<close>

text \<open>
  C6. For a shipment of size S the candidate discount is the provider's S price minus
  the lower of the two S prices, and the call returns what the cap makes of it. When
  the provider's price is that minimum, the discount is 0, the price is the base
  price, the tracking dictionary is returned as it was, and the line ends in a dash.
\<close>

theorem small_price_match:
  assumes "price_item provider ''S'' = Inr base"
  shows "\<exists>lp mr. price_item ''LP'' ''S'' = Inr lp \<and> price_item ''MR'' ''S'' = Inr mr \<and>
     (let lowest = min lp mr; candidate = base - lowest; used = discount (lookup_month td ym)
      in calculate_discount ''S'' provider ym td =
           (if candidate = 0 then Inr ((base, 0), td)
            else if used + candidate > monthly_limit
            then Inr ((base - (monthly_limit - used), monthly_limit - used),
                      td(ym \<mapsto> (lookup_month td ym)\<lparr>discount := monthly_limit\<rparr>))
            else Inr ((lowest, candidate),
                      td(ym \<mapsto> (lookup_month td ym)\<lparr>discount := used + candidate\<rparr>)))
         \<and> (base = lowest \<longrightarrow>
              calculate_discount ''S'' provider ym td = Inr ((base, 0), td)
              \<and> process_entry td [date, ''S'', provider]
                  = Inr (Priced date ''S'' provider base base 0, td)
              \<and> render (Priced date ''S'' provider base base 0)
                  = [date @ '' S '' @ provider @ '' '' @ format_2f base @ '' -'']))"
proof -
  have lp: "price_item ''LP'' ''S'' = Inr 150" by (rule price_item_LP_S)
  have mr: "price_item ''MR'' ''S'' = Inr 200" by (rule price_item_MR_S)
  have get: "price_get provider ''S'' = Inr base"
    using assms by (auto simp: price_get_def price_item_def split: option.splits)
  have prov: "provider \<noteq> ''Ignored''"
    using price_item_S_cases [OF assms] by auto
  have calc: "\<And>ym. calculate_discount ''S'' provider ym td =
           (if base - 150 = 0 then Inr ((base, 0), td)
            else if discount (lookup_month td ym) + (base - 150) > monthly_limit
            then Inr ((base - (monthly_limit - discount (lookup_month td ym)), monthly_limit - discount (lookup_month td ym)),
                      td(ym \<mapsto> (lookup_month td ym)\<lparr>discount := monthly_limit\<rparr>))
            else Inr ((150, base - 150),
                      td(ym \<mapsto> (lookup_month td ym)\<lparr>discount := discount (lookup_month td ym) + (base - 150)\<rparr>)))"
    using assms by (simp add: calculate_discount_def lp mr Let_def)
  have entry: "base = 150 \<Longrightarrow> process_entry td [date, ''S'', provider]
                  = Inr (Priced date ''S'' provider base base 0, td)"
    using get prov calc [of "take 7 date"] by (simp add: process_entry_def Let_def)
  show ?thesis
    using lp mr calc [of ym] entry by (simp add: Let_def)
qed

theorem small_price_match_witness:
  "calculate_discount ''S'' ''LP'' ''2024-08'' Map.empty = Inr ((150, 0), Map.empty)
   \<and> process_entry Map.empty [''2024-08-09'', ''S'', ''LP'']
        = Inr (Priced ''2024-08-09'' ''S'' ''LP'' 150 150 0, Map.empty)
   \<and> render (Priced ''2024-08-09'' ''S'' ''LP'' 150 150 0) = [''2024-08-09 S LP 1.50 -'']"
  using small_price_match [of "''LP''" 150 Map.empty "''2024-08''" "''2024-08-09''"]
  by (simp add: price_item_LP_S price_item_MR_S Let_def format_2f_def str_nat.simps digit_char_def)

section \<open>The monthly budget (C3)\<close>

text \<open>
  C3. In a pass that starts with the empty dictionary and does not raise, take any
  point of the pass (after the entries \<open>xs\<close>) and its end (after \<open>xs @ ys\<close>). For
  every month key the \<^verbatim>\<open>discount\<close> recorded at the earlier point is at most the one
  recorded at the end, which is at most 10.00; and the discounts granted to the priced
  entries of that month add up to the recorded \<^verbatim>\<open>discount\<close>, hence to at most 10.00.
\<close>

theorem discount_budget:
  assumes "process_loop Map.empty (xs @ ys) = Inr (outs, final)"
  shows "\<exists>outs1 td1. process_loop Map.empty xs = Inr (outs1, td1)
           \<and> outs1 = take (length xs) outs
           \<and> 0 \<le> discount (lookup_month td1 ym)
           \<and> discount (lookup_month td1 ym) \<le> discount (lookup_month final ym)
           \<and> discount (lookup_month final ym) \<le> 1000
           \<and> month_discounts ym outs = discount (lookup_month final ym)
           \<and> month_discounts ym outs \<le> 1000"
proof -
  from assms obtain outs1 td1 outs2 where
    p1: "process_loop Map.empty xs = Inr (outs1, td1)" and
    p2: "process_loop td1 ys = Inr (outs2, final)" and
    outs: "outs = outs1 @ outs2"
    by (auto simp: process_loop_append split: sum.splits)
  have z: "discount (lookup_month Map.empty ym) \<le> 1000" by (simp add: lookup_month_empty)
  note a = process_loop_budget [OF p1 z]
  then have "discount (lookup_month td1 ym) \<le> 1000" by simp
  note b = process_loop_budget [OF p2 this]
  note c = process_loop_budget [OF assms z]
  have "length outs1 = length xs" by (rule process_loop_length [OF p1])
  then have "outs1 = take (length xs) outs" by (simp add: outs)
  with p1 a b c show ?thesis by (simp add: lookup_month_empty)
qed


theorem discount_budget_witness:
  "process_loop Map.empty
     ([[''2024-08-01'', ''L'', ''LP''], [''2024-08-02'', ''L'', ''LP''], [''2024-08-03'', ''L'', ''LP''],
       [''2024-08-04'', ''S'', ''MR''], [''2024-08-05'', ''S'', ''MR''], [''2024-08-06'', ''S'', ''MR'']]
      @ [[''2024-08-07'', ''S'', ''MR''], [''2024-08-08'', ''S'', ''MR''], [''2024-08-09'', ''S'', ''MR''],
         [''2024-08-10'', ''S'', ''MR''], [''2024-08-11'', ''S'', ''MR'']])
   = Inr ([Priced ''2024-08-01'' ''L'' ''LP'' 690 690 0, Priced ''2024-08-02'' ''L'' ''LP'' 690 690 0,
           Priced ''2024-08-03'' ''L'' ''LP'' 690 0 690, Priced ''2024-08-04'' ''S'' ''MR'' 200 150 50,
           Priced ''2024-08-05'' ''S'' ''MR'' 200 150 50, Priced ''2024-08-06'' ''S'' ''MR'' 200 150 50,
           Priced ''2024-08-07'' ''S'' ''MR'' 200 150 50, Priced ''2024-08-08'' ''S'' ''MR'' 200 150 50,
           Priced ''2024-08-09'' ''S'' ''MR'' 200 150 50, Priced ''2024-08-10'' ''S'' ''MR'' 200 190 10,
           Priced ''2024-08-11'' ''S'' ''MR'' 200 200 0],
          [''2024-08'' \<mapsto> \<lparr>L_LP_count = 3, discount = 1000\<rparr>])
   \<and> process_loop Map.empty
       [[''2024-08-01'', ''L'', ''LP''], [''2024-08-02'', ''L'', ''LP''], [''2024-08-03'', ''L'', ''LP''],
        [''2024-08-04'', ''S'', ''MR''], [''2024-08-05'', ''S'', ''MR''], [''2024-08-06'', ''S'', ''MR'']]
     = Inr ([Priced ''2024-08-01'' ''L'' ''LP'' 690 690 0, Priced ''2024-08-02'' ''L'' ''LP'' 690 690 0,
           Priced ''2024-08-03'' ''L'' ''LP'' 690 0 690, Priced ''2024-08-04'' ''S'' ''MR'' 200 150 50,
           Priced ''2024-08-05'' ''S'' ''MR'' 200 150 50, Priced ''2024-08-06'' ''S'' ''MR'' 200 150 50],
          [''2024-08'' \<mapsto> \<lparr>L_LP_count = 3, discount = 840\<rparr>])
   \<and> month_discounts ''2024-08''
        [Priced ''2024-08-01'' ''L'' ''LP'' 690 690 0, Priced ''2024-08-02'' ''L'' ''LP'' 690 690 0,
           Priced ''2024-08-03'' ''L'' ''LP'' 690 0 690, Priced ''2024-08-04'' ''S'' ''MR'' 200 150 50,
           Priced ''2024-08-05'' ''S'' ''MR'' 200 150 50, Priced ''2024-08-06'' ''S'' ''MR'' 200 150 50,
           Priced ''2024-08-07'' ''S'' ''MR'' 200 150 50, Priced ''2024-08-08'' ''S'' ''MR'' 200 150 50,
           Priced ''2024-08-09'' ''S'' ''MR'' 200 150 50, Priced ''2024-08-10'' ''S'' ''MR'' 200 190 10,
           Priced ''2024-08-11'' ''S'' ''MR'' 200 200 0] = 1000"
proof -
  have run: "process_loop Map.empty
     ([[''2024-08-01'', ''L'', ''LP''], [''2024-08-02'', ''L'', ''LP''], [''2024-08-03'', ''L'', ''LP''],
       [''2024-08-04'', ''S'', ''MR''], [''2024-08-05'', ''S'', ''MR''], [''2024-08-06'', ''S'', ''MR'']]
      @ [[''2024-08-07'', ''S'', ''MR''], [''2024-08-08'', ''S'', ''MR''], [''2024-08-09'', ''S'', ''MR''],
         [''2024-08-10'', ''S'', ''MR''], [''2024-08-11'', ''S'', ''MR'']])
   = Inr ([Priced ''2024-08-01'' ''L'' ''LP'' 690 690 0, Priced ''2024-08-02'' ''L'' ''LP'' 690 690 0,
           Priced ''2024-08-03'' ''L'' ''LP'' 690 0 690, Priced ''2024-08-04'' ''S'' ''MR'' 200 150 50,
           Priced ''2024-08-05'' ''S'' ''MR'' 200 150 50, Priced ''2024-08-06'' ''S'' ''MR'' 200 150 50,
           Priced ''2024-08-07'' ''S'' ''MR'' 200 150 50, Priced ''2024-08-08'' ''S'' ''MR'' 200 150 50,
           Priced ''2024-08-09'' ''S'' ''MR'' 200 150 50, Priced ''2024-08-10'' ''S'' ''MR'' 200 190 10,
           Priced ''2024-08-11'' ''S'' ''MR'' 200 200 0],
          [''2024-08'' \<mapsto> \<lparr>L_LP_count = 3, discount = 1000\<rparr>])"
    by (simp add: eval_defs)
  show ?thesis
    using run discount_budget [OF run, of "''2024-08''"]
    by (simp add: eval_defs month_discounts_def)
qed


section \<open>The third L/LP shipment of a month (C4)\<close>

text \<open>
  C4. Take a pass that starts with the empty dictionary and does not raise, and in it
  an entry of size L and provider LP. Let \<open>k\<close> be its running number among the L/LP
  entries of its month (those before it, plus one). Its base price is 6.90. If
  \<open>k \<noteq> 3\<close> it is charged 6.90 with discount 0. If \<open>k = 3\<close> its discount is the
  smaller of 6.90 and what is left of the month's 10.00, and its price is 6.90 minus
  that discount: the discount is positive when the budget is not used up, and the
  price is 0.00 when the budget holds the whole 6.90. In the whole pass at most one
  entry of a month is granted a discount by this rule.
\<close>

theorem third_shipment_rule:
  assumes "process_loop Map.empty (xs @ [date, ''L'', ''LP''] # ys) = Inr (outs, final)"
  shows "\<exists>outs1 td1 new_price d.
           process_loop Map.empty xs = Inr (outs1, td1) \<and> outs1 = take (length xs) outs
         \<and> outs ! length xs = Priced date ''L'' ''LP'' 690 new_price d
         \<and> (count_L_LP (take 7 date) xs + 1 \<noteq> 3 \<longrightarrow> new_price = 690 \<and> d = 0)
         \<and> (count_L_LP (take 7 date) xs + 1 = 3 \<longrightarrow>
              d = min 690 (1000 - month_discounts (take 7 date) outs1) \<and> new_price = 690 - d
              \<and> (month_discounts (take 7 date) outs1 < 1000 \<longrightarrow> 0 < d)
              \<and> (month_discounts (take 7 date) outs1 + 690 \<le> 1000 \<longrightarrow> new_price = 0 \<and> d = 690))
         \<and> length (filter (rule_A_granted year_month) outs) \<le> 1"
proof -
  let ?ym = "take 7 date"
  from assms obtain outs1 td1 out td2 outs2 where
    p1: "process_loop Map.empty xs = Inr (outs1, td1)" and
    step: "process_entry td1 [date, ''L'', ''LP''] = Inr (out, td2)" and
    outs: "outs = outs1 @ out # outs2"
    by (auto simp: process_loop_append split: sum.splits)
  have len: "length outs1 = length xs" by (rule process_loop_length [OF p1])
  have cnt: "L_LP_count (lookup_month td1 ?ym) = count_L_LP ?ym xs"
    using process_loop_count [OF p1, of ?ym] by (simp add: lookup_month_empty)
  have used: "discount (lookup_month td1 ?ym) = month_discounts ?ym outs1"
    using process_loop_budget [OF p1, of ?ym] by (simp add: lookup_month_empty)
  define d where "d = (if count_L_LP ?ym xs + 1 = 3
                       then min 690 (1000 - month_discounts ?ym outs1) else 0)"
  have out: "out = Priced date ''L'' ''LP'' 690 (690 - d) d"
    using step by (simp add: process_entry_L_LP Let_def cnt used d_def)
  have nth: "outs ! length xs = out"
    using len by (simp add: outs nth_append)
  have once: "length (filter (rule_A_granted year_month) outs) \<le> 1"
    using process_loop_rule_A_once [OF assms, of year_month] by (simp split: if_splits)
  have tk: "outs1 = take (length xs) outs" using len by (simp add: outs)
  show ?thesis
    using p1 tk nth out once by (auto simp: d_def)
qed

theorem third_shipment_rule_witness:
  "process_loop Map.empty
     ([[''2024-08-10'', ''L'', ''LP''], [''2024-08-11'', ''L'', ''LP'']]
      @ [''2024-08-12'', ''L'', ''LP''] # [[''2024-08-13'', ''L'', ''LP'']])
   = Inr ([Priced ''2024-08-10'' ''L'' ''LP'' 690 690 0, Priced ''2024-08-11'' ''L'' ''LP'' 690 690 0,
           Priced ''2024-08-12'' ''L'' ''LP'' 690 0 690, Priced ''2024-08-13'' ''L'' ''LP'' 690 690 0],
          [''2024-08'' \<mapsto> \<lparr>L_LP_count = 4, discount = 690\<rparr>])
   \<and> count_L_LP ''2024-08'' [[''2024-08-10'', ''L'', ''LP''], [''2024-08-11'', ''L'', ''LP'']] + 1 = 3
   \<and> count_L_LP ''2024-08'' [[''2024-08-10'', ''L'', ''LP''], [''2024-08-11'', ''L'', ''LP''],
                              [''2024-08-12'', ''L'', ''LP'']] + 1 \<noteq> 3
   \<and> length (filter (rule_A_granted ''2024-08'')
        [Priced ''2024-08-10'' ''L'' ''LP'' 690 690 0, Priced ''2024-08-11'' ''L'' ''LP'' 690 690 0,
         Priced ''2024-08-12'' ''L'' ''LP'' 690 0 690, Priced ''2024-08-13'' ''L'' ''LP'' 690 690 0]) \<le> 1"
proof -
  have run3: "process_loop Map.empty
     ([[''2024-08-10'', ''L'', ''LP''], [''2024-08-11'', ''L'', ''LP'']]
      @ [''2024-08-12'', ''L'', ''LP''] # [[''2024-08-13'', ''L'', ''LP'']])
   = Inr ([Priced ''2024-08-10'' ''L'' ''LP'' 690 690 0, Priced ''2024-08-11'' ''L'' ''LP'' 690 690 0,
           Priced ''2024-08-12'' ''L'' ''LP'' 690 0 690, Priced ''2024-08-13'' ''L'' ''LP'' 690 690 0],
          [''2024-08'' \<mapsto> \<lparr>L_LP_count = 4, discount = 690\<rparr>])"
    by (simp add: eval_defs)
  have run4: "process_loop Map.empty
     ([[''2024-08-10'', ''L'', ''LP''], [''2024-08-11'', ''L'', ''LP''], [''2024-08-12'', ''L'', ''LP'']]
      @ [''2024-08-13'', ''L'', ''LP''] # [])
   = Inr ([Priced ''2024-08-10'' ''L'' ''LP'' 690 690 0, Priced ''2024-08-11'' ''L'' ''LP'' 690 690 0,
           Priced ''2024-08-12'' ''L'' ''LP'' 690 0 690, Priced ''2024-08-13'' ''L'' ''LP'' 690 690 0],
          [''2024-08'' \<mapsto> \<lparr>L_LP_count = 4, discount = 690\<rparr>])"
    by (simp add: eval_defs)
  show ?thesis
    using run3 third_shipment_rule [OF run3, of "''2024-08''"]
          third_shipment_rule [OF run4, of "''2024-08''"]
    by (simp add: count_L_LP_def is_L_LP_def)
qed

section \<open>The third L/LP shipment on an exhausted budget (C10)\<close>

text \<open>
  C10. When the month's \<^verbatim>\<open>discount\<close> is already 10.00 and its L/LP count is 2, the
  next L/LP shipment of the month is charged 6.90 with discount 0 and its line ends
  in a dash, not in \<^verbatim>\<open>0.00\<close>. Every L/LP shipment, in any state, adds one to its
  month's count; the count is then 3, and no later entry of that month is granted a
  discount by the third-shipment rule.
\<close>

theorem exhausted_budget_third_shipment:
  assumes "L_LP_count (lookup_month td (take 7 date)) = 2"
    and "discount (lookup_month td (take 7 date)) = 1000"
  shows "process_entry td [date, ''L'', ''LP'']
           = Inr (Priced date ''L'' ''LP'' 690 690 0,
                  td(take 7 date \<mapsto> \<lparr>L_LP_count = 3, discount = 1000\<rparr>))
       \<and> render (Priced date ''L'' ''LP'' 690 690 0) = [date @ '' L LP 6.90 -'']
       \<and> (\<forall>td0 date0. \<exists>out td1.
             process_entry td0 [date0, ''L'', ''LP''] = Inr (out, td1)
             \<and> L_LP_count (lookup_month td1 (take 7 date0))
                 = L_LP_count (lookup_month td0 (take 7 date0)) + 1)
       \<and> (\<forall>es outs final.
             process_loop (td(take 7 date \<mapsto> \<lparr>L_LP_count = 3, discount = 1000\<rparr>)) es
               = Inr (outs, final)
             \<longrightarrow> (\<forall>out \<in> set outs. \<not> rule_A_granted (take 7 date) out))"
proof (intro conjI allI impI)
  show "process_entry td [date, ''L'', ''LP'']
           = Inr (Priced date ''L'' ''LP'' 690 690 0,
                  td(take 7 date \<mapsto> \<lparr>L_LP_count = 3, discount = 1000\<rparr>))"
    using assms by (simp add: process_entry_L_LP Let_def)
next
  show "render (Priced date ''L'' ''LP'' 690 690 0) = [date @ '' L LP 6.90 -'']"
    by (simp add: format_2f_def str_nat.simps digit_char_def)
next
  fix td0 date0
  show "\<exists>out td1. process_entry td0 [date0, ''L'', ''LP''] = Inr (out, td1)
             \<and> L_LP_count (lookup_month td1 (take 7 date0))
                 = L_LP_count (lookup_month td0 (take 7 date0)) + 1"
    by (simp add: process_entry_L_LP Let_def lookup_month_upd)
next
  fix es outs final
  assume run: "process_loop (td(take 7 date \<mapsto> \<lparr>L_LP_count = 3, discount = 1000\<rparr>)) es
               = Inr (outs, final)"
  from process_loop_rule_A_once [OF run, of "take 7 date"]
  have "filter (rule_A_granted (take 7 date)) outs = []"
    by (simp add: lookup_month_upd)
  then show "\<forall>out \<in> set outs. \<not> rule_A_granted (take 7 date) out"
    by (simp add: filter_empty_conv)
qed

theorem exhausted_budget_third_shipment_witness:
  "process_loop Map.empty
     (replicate 20 [''2024-08-01'', ''S'', ''MR''] @ replicate 2 [''2024-08-02'', ''L'', ''LP''])
     = Inr (replicate 20 (Priced ''2024-08-01'' ''S'' ''MR'' 200 150 50)
              @ replicate 2 (Priced ''2024-08-02'' ''L'' ''LP'' 690 690 0),
            [''2024-08'' \<mapsto> \<lparr>L_LP_count = 2, discount = 1000\<rparr>])
   \<and> process_entry [''2024-08'' \<mapsto> \<lparr>L_LP_count = 2, discount = 1000\<rparr>] [''2024-08-03'', ''L'', ''LP'']
     = Inr (Priced ''2024-08-03'' ''L'' ''LP'' 690 690 0,
            [''2024-08'' \<mapsto> \<lparr>L_LP_count = 3, discount = 1000\<rparr>])
   \<and> render (Priced ''2024-08-03'' ''L'' ''LP'' 690 690 0) = [''2024-08-03 L LP 6.90 -'']
   \<and> process_loop [''2024-08'' \<mapsto> \<lparr>L_LP_count = 3, discount = 1000\<rparr>] [[''2024-08-04'', ''L'', ''LP'']]
     = Inr ([Priced ''2024-08-04'' ''L'' ''LP'' 690 690 0],
            [''2024-08'' \<mapsto> \<lparr>L_LP_count = 4, discount = 1000\<rparr>])
   \<and> \<not> rule_A_granted ''2024-08'' (Priced ''2024-08-04'' ''L'' ''LP'' 690 690 0)"
proof -
  have reach: "process_loop Map.empty
     (replicate 20 [''2024-08-01'', ''S'', ''MR''] @ replicate 2 [''2024-08-02'', ''L'', ''LP''])
     = Inr (replicate 20 (Priced ''2024-08-01'' ''S'' ''MR'' 200 150 50)
              @ replicate 2 (Priced ''2024-08-02'' ''L'' ''LP'' 690 690 0),
            [''2024-08'' \<mapsto> \<lparr>L_LP_count = 2, discount = 1000\<rparr>])"
    by (simp add: eval_defs eval_nat_numeral)
  have c: "L_LP_count (lookup_month [''2024-08'' \<mapsto> \<lparr>L_LP_count = 2, discount = 1000\<rparr>]
             (take 7 ''2024-08-03'')) = 2"
    by (simp add: lookup_month_def)
  have u: "discount (lookup_month [''2024-08'' \<mapsto> \<lparr>L_LP_count = 2, discount = 1000\<rparr>]
             (take 7 ''2024-08-03'')) = 1000"
    by (simp add: lookup_month_def)
  have later: "process_loop [''2024-08'' \<mapsto> \<lparr>L_LP_count = 3, discount = 1000\<rparr>]
        [[''2024-08-04'', ''L'', ''LP'']]
     = Inr ([Priced ''2024-08-04'' ''L'' ''LP'' 690 690 0],
            [''2024-08'' \<mapsto> \<lparr>L_LP_count = 4, discount = 1000\<rparr>])"
    by (simp add: eval_defs)
  show ?thesis
    using reach later exhausted_budget_third_shipment [OF c u]
    by simp
qed


section \<open>One output line per input line (C7)\<close>

text \<open>
  C7. For every list of raw lines the pipeline returns a list of lines and raises
  nothing. The loop yields one outcome per input line, in the order of the input: the
  outcome at a position is the ignored or the priced outcome of the line at that
  position, and the output line at that position is the one line that outcome is
  rendered to. The outcome of the loop's fall-through, which appends nothing, does
  not occur.
\<close>

theorem one_line_per_input:
  "\<exists>outs final out.
      process_loop Map.empty (validate_transactions lines) = Inr (outs, final)
    \<and> pipeline lines = Inr out
    \<and> length out = length lines
    \<and> list_all2 outcome_of_line lines outs
    \<and> list_all2 rendered_as outs out
    \<and> Nothing \<notin> set outs"
proof -
  from validated_run [of Map.empty lines] obtain outs final where
    run: "process_loop Map.empty (validate_transactions lines) = Inr (outs, final)"
    and a: "list_all2 outcome_of_line lines outs"
    and b: "list_all2 rendered_as outs (concat (map render outs))" by blast
  have p: "pipeline lines = Inr (concat (map render outs))"
    using run by (simp add: pipeline_def process_transactions_def)
  have "length (concat (map render outs)) = length lines"
    using list_all2_lengthD [OF a] list_all2_lengthD [OF b] by simp
  with run p a b outcome_of_line_Nothing [OF a] show ?thesis by blast
qed

theorem one_line_per_input_witness:
  "pipeline [''2024-08-09 S LP'', ''2024-13-01 S LP'', ''bad line'', [], ''2024-08-10 L LP'']
     = Inr [''2024-08-09 S LP 1.50 -'', ''2024-13-01 S LP Ignored'', ''bad line Ignored'',
            '' Ignored'', ''2024-08-10 L LP 6.90 -'']
   \<and> (\<exists>outs final.
         process_loop Map.empty (validate_transactions
           [''2024-08-09 S LP'', ''2024-13-01 S LP'', ''bad line'', [], ''2024-08-10 L LP''])
           = Inr (outs, final)
         \<and> list_all2 outcome_of_line
             [''2024-08-09 S LP'', ''2024-13-01 S LP'', ''bad line'', [], ''2024-08-10 L LP''] outs
         \<and> Nothing \<notin> set outs)"
proof -
  have e: "pipeline [''2024-08-09 S LP'', ''2024-13-01 S LP'', ''bad line'', [], ''2024-08-10 L LP'']
     = Inr [''2024-08-09 S LP 1.50 -'', ''2024-13-01 S LP Ignored'', ''bad line Ignored'',
            '' Ignored'', ''2024-08-10 L LP 6.90 -'']"
    by code_simp
  show ?thesis
    using e one_line_per_input
      [of "[''2024-08-09 S LP'', ''2024-13-01 S LP'', ''bad line'', [], ''2024-08-10 L LP'']"]
    by blast
qed

section \<open>Rejected lines (C1)\<close>

text \<open>
  C1, as the code has it. For every input line that \<^verbatim>\<open>check_transaction\<close> rejects, the
  output line at the same position is the input line with the whitespace at its two
  ends removed, followed by one space and the word \<^verbatim>\<open>Ignored\<close>. The line is not
  passed through unchanged: the marker of the rejected tuple is joined to it.
\<close>

theorem ignored_line_output:
  assumes "i < length lines" and "check_transaction (lines ! i) = [lines ! i, ''Ignored'']"
  shows "\<exists>out. pipeline lines = Inr out \<and> length out = length lines
           \<and> out ! i = str_strip (lines ! i) @ '' Ignored''"
proof -
  from validated_run [of Map.empty lines] obtain outs final where
    run: "process_loop Map.empty (validate_transactions lines) = Inr (outs, final)"
    and a: "list_all2 outcome_of_line lines outs"
    and b: "list_all2 rendered_as outs (concat (map render outs))" by blast
  let ?out = "concat (map render outs)"
  have p: "pipeline lines = Inr ?out"
    using run by (simp add: pipeline_def process_transactions_def)
  have len: "length outs = length lines" "length ?out = length outs"
    using list_all2_lengthD [OF a] list_all2_lengthD [OF b] by simp_all
  have ai: "outcome_of_line (lines ! i) (outs ! i)"
    using a assms(1) by (simp add: list_all2_conv_all_nth)
  have bi: "render (outs ! i) = [?out ! i]"
    using b assms(1) len by (simp add: list_all2_conv_all_nth rendered_as_def)
  have "outs ! i = Ignored (str_strip (lines ! i) @ '' Ignored'')"
    using ai assms(2) by (cases "outs ! i") auto
  with bi have "?out ! i = str_strip (lines ! i) @ '' Ignored''" by simp
  with p len show ?thesis by simp
qed

theorem ignored_line_output_witness:
  "1 < length [''2024-13-01 S LP'', ''  bad  line '']
   \<and> check_transaction ([''2024-13-01 S LP'', ''  bad  line ''] ! 1) = [''  bad  line '', ''Ignored'']
   \<and> (\<exists>out. pipeline [''2024-13-01 S LP'', ''  bad  line ''] = Inr out \<and> length out = 2
         \<and> out ! 1 = ''bad  line Ignored'')"
proof -
  have i: "1 < length [''2024-13-01 S LP'', ''  bad  line '']" by simp
  have c: "check_transaction ([''2024-13-01 S LP'', ''  bad  line ''] ! 1)
             = [[''2024-13-01 S LP'', ''  bad  line ''] ! 1, ''Ignored'']"
    by code_simp
  have s: "str_strip ''  bad  line '' = ''bad  line''" by code_simp
  show ?thesis
    using ignored_line_output [OF i c] c s by (simp add: eval_nat_numeral)
qed

theorem ignored_line_counterexample:
  "check_transaction ''bad line'' = [''bad line'', ''Ignored'']
   \<and> pipeline [''bad line''] = Inr [''bad line Ignored'']
   \<and> pipeline [''bad line''] \<noteq> Inr [''bad line'']"
  by code_simp


section \<open>The line of a priced transaction (C9)\<close>

text \<open>
  C9. For every valid transaction (a size in S, M, L and a provider in LP, MR), in
  any state of the tracking dictionary, the iteration succeeds and appends the line
  made of the date, the size, the provider, the price charged and a last field, with
  single spaces between them. The last field is the dash exactly when the discount
  is 0, and the formatted discount otherwise. The formatted price and discount each
  have a point followed by exactly two digits.
\<close>

theorem priced_line_format:
  assumes "size' \<in> valid_sizes" and "provider \<in> valid_providers"
  shows "\<exists>price new_price d td'.
           process_entry td [date, size', provider]
             = Inr (Priced date size' provider price new_price d, td')
         \<and> calculate_discount size' provider (take 7 date) td = Inr ((new_price, d), td')
         \<and> render (Priced date size' provider price new_price d)
             = [date @ '' '' @ size' @ '' '' @ provider @ '' '' @ format_2f new_price @ '' ''
                  @ (if d = 0 then ''-'' else format_2f d)]
         \<and> two_decimals (format_2f new_price) \<and> two_decimals (format_2f d)"
proof -
  from process_entry_valid [OF assms, of td date] obtain price np d td' where
    pe: "process_entry td [date, size', provider] = Inr (Priced date size' provider price np d, td')"
    and cd: "calculate_discount size' provider (take 7 date) td = Inr ((np, d), td')"
    and z: "d = 0 \<longrightarrow> np = price" by blast
  have "render (Priced date size' provider price np d)
             = [date @ '' '' @ size' @ '' '' @ provider @ '' '' @ format_2f np @ '' ''
                  @ (if d = 0 then ''-'' else format_2f d)]"
    using z by auto
  with pe cd show ?thesis
    using two_decimals_format_2f by blast
qed

theorem priced_line_format_witness:
  "process_entry [''2024-08'' \<mapsto> \<lparr>L_LP_count = 2, discount = 350\<rparr>] [''2024-08-12'', ''L'', ''LP'']
     = Inr (Priced ''2024-08-12'' ''L'' ''LP'' 690 40 650,
            [''2024-08'' \<mapsto> \<lparr>L_LP_count = 3, discount = 1000\<rparr>])
   \<and> render (Priced ''2024-08-12'' ''L'' ''LP'' 690 40 650) = [''2024-08-12 L LP 0.40 6.50'']
   \<and> process_entry Map.empty [''2024-08-12'', ''M'', ''MR'']
     = Inr (Priced ''2024-08-12'' ''M'' ''MR'' 300 300 0, Map.empty)
   \<and> render (Priced ''2024-08-12'' ''M'' ''MR'' 300 300 0) = [''2024-08-12 M MR 3.00 -'']
   \<and> two_decimals ''0.40'' \<and> two_decimals ''6.50'' \<and> two_decimals ''3.00''"
proof -
  have s: "''L'' \<in> valid_sizes" "''M'' \<in> valid_sizes" by (simp_all add: valid_sizes_def)
  have p: "''LP'' \<in> valid_providers" "''MR'' \<in> valid_providers"
    by (simp_all add: valid_providers_def)
  have f: "format_2f 40 = ''0.40''" "format_2f 650 = ''6.50''" "format_2f 300 = ''3.00''"
    by (simp_all add: format_2f_def str_nat.simps digit_char_def)
  show ?thesis
    using priced_line_format [OF s(1) p(1), of "[''2024-08'' \<mapsto> \<lparr>L_LP_count = 2, discount = 350\<rparr>]" "''2024-08-12''"]
          priced_line_format [OF s(2) p(2), of Map.empty "''2024-08-12''"]
    by (simp add: eval_defs f)
qed


section \<open>Adjacent transactions of different months (C8)\<close>

text \<open>
  C8. In a pass that starts with the empty dictionary and does not raise, let two
  adjacent entries be transactions with valid providers whose dates start with
  different year-month keys. The pass over the list with these two entries exchanged
  also succeeds: every entry has the same outcome (price, new price and discount) as
  before, the outcomes of the two entries have exchanged their positions, and the
  final dictionary is the same. Hence the output lines are the same but for the two
  lines of these entries, which have exchanged their positions.
\<close>

theorem month_swap:
  assumes run: "process_loop Map.empty (xs @ [d1, s1, p1] # [d2, s2, p2] # ys) = Inr (outs, final)"
    and ne: "take 7 d1 \<noteq> take 7 d2"
    and v1: "p1 \<in> valid_providers" and v2: "p2 \<in> valid_providers"
  shows "\<exists>o1 a b o2 la lb.
      outs = o1 @ a # b # o2 \<and> length o1 = length xs
    \<and> process_loop Map.empty (xs @ [d2, s2, p2] # [d1, s1, p1] # ys)
        = Inr (o1 @ b # a # o2, final)
    \<and> (\<exists>price new_price d. a = Priced d1 s1 p1 price new_price d)
    \<and> (\<exists>price new_price d. b = Priced d2 s2 p2 price new_price d)
    \<and> render a = [la] \<and> render b = [lb]
    \<and> process_transactions (xs @ [d1, s1, p1] # [d2, s2, p2] # ys)
        = Inr (concat (map render o1) @ la # lb # concat (map render o2))
    \<and> process_transactions (xs @ [d2, s2, p2] # [d1, s1, p1] # ys)
        = Inr (concat (map render o1) @ lb # la # concat (map render o2))"
proof -
  have n1: "p1 \<noteq> ''Ignored''" and n2: "p2 \<noteq> ''Ignored''"
    using v1 v2 by (simp_all add: valid_provider_not_marker)
  from run obtain o1 t0 a t1 b t2 o2 where
    pre: "process_loop Map.empty xs = Inr (o1, t0)" and
    e1: "process_entry t0 [d1, s1, p1] = Inr (a, t1)" and
    e2: "process_entry t1 [d2, s2, p2] = Inr (b, t2)" and
    post: "process_loop t2 ys = Inr (o2, final)" and
    outs: "outs = o1 @ a # b # o2"
    by (auto simp: process_loop_append split: sum.splits)
  from process_entry_commute [OF e1 e2 ne n1 n2] obtain t where
    e2': "process_entry t0 [d2, s2, p2] = Inr (b, t)" and
    e1': "process_entry t [d1, s1, p1] = Inr (a, t2)" by blast
  have swapped: "process_loop Map.empty (xs @ [d2, s2, p2] # [d1, s1, p1] # ys)
        = Inr (o1 @ b # a # o2, final)"
    using pre e2' e1' post by (simp add: process_loop_append)
  have a: "\<exists>price new_price d. a = Priced d1 s1 p1 price new_price d"
    using e1 n1 by (auto simp: process_entry_triple split: sum.splits)
  have b: "\<exists>price new_price d. b = Priced d2 s2 p2 price new_price d"
    using e2 n2 by (auto simp: process_entry_triple split: sum.splits)
  from a obtain la where la: "render a = [la]" using render_single [of a] by auto
  from b obtain lb where lb: "render b = [lb]" using render_single [of b] by auto
  have len: "length o1 = length xs" by (rule process_loop_length [OF pre])
  have l1: "process_transactions (xs @ [d1, s1, p1] # [d2, s2, p2] # ys)
        = Inr (concat (map render o1) @ la # lb # concat (map render o2))"
    using run la lb by (simp add: process_transactions_def outs)
  have l2: "process_transactions (xs @ [d2, s2, p2] # [d1, s1, p1] # ys)
        = Inr (concat (map render o1) @ lb # la # concat (map render o2))"
    using swapped la lb by (simp add: process_transactions_def)
  from outs len swapped a b la lb l1 l2 show ?thesis by blast
qed

theorem month_swap_witness:
  "process_transactions
     ([[''2024-08-01'', ''L'', ''LP''], [''2024-08-02'', ''L'', ''LP'']]
      @ [''2024-08-03'', ''L'', ''LP''] # [''2024-09-01'', ''S'', ''MR'']
      # [[''2024-08-04'', ''S'', ''MR'']])
     = Inr [''2024-08-01 L LP 6.90 -'', ''2024-08-02 L LP 6.90 -'', ''2024-08-03 L LP 0.00 6.90'',
            ''2024-09-01 S MR 1.50 0.50'', ''2024-08-04 S MR 1.50 0.50'']
   \<and> process_transactions
     ([[''2024-08-01'', ''L'', ''LP''], [''2024-08-02'', ''L'', ''LP'']]
      @ [''2024-09-01'', ''S'', ''MR''] # [''2024-08-03'', ''L'', ''LP'']
      # [[''2024-08-04'', ''S'', ''MR'']])
     = Inr [''2024-08-01 L LP 6.90 -'', ''2024-08-02 L LP 6.90 -'', ''2024-09-01 S MR 1.50 0.50'',
            ''2024-08-03 L LP 0.00 6.90'', ''2024-08-04 S MR 1.50 0.50'']
   \<and> (\<exists>o1 a b o2.
         length o1 = 2
       \<and> process_loop Map.empty
           ([[''2024-08-01'', ''L'', ''LP''], [''2024-08-02'', ''L'', ''LP'']]
            @ [''2024-08-03'', ''L'', ''LP''] # [''2024-09-01'', ''S'', ''MR'']
            # [[''2024-08-04'', ''S'', ''MR'']])
           = Inr (o1 @ a # b # o2,
                  [''2024-08'' \<mapsto> \<lparr>L_LP_count = 3, discount = 740\<rparr>,
                   ''2024-09'' \<mapsto> \<lparr>L_LP_count = 0, discount = 50\<rparr>])
       \<and> process_loop Map.empty
           ([[''2024-08-01'', ''L'', ''LP''], [''2024-08-02'', ''L'', ''LP'']]
            @ [''2024-09-01'', ''S'', ''MR''] # [''2024-08-03'', ''L'', ''LP'']
            # [[''2024-08-04'', ''S'', ''MR'']])
           = Inr (o1 @ b # a # o2,
                  [''2024-08'' \<mapsto> \<lparr>L_LP_count = 3, discount = 740\<rparr>,
                   ''2024-09'' \<mapsto> \<lparr>L_LP_count = 0, discount = 50\<rparr>]))"
proof -
  have run: "process_loop Map.empty
     ([[''2024-08-01'', ''L'', ''LP''], [''2024-08-02'', ''L'', ''LP'']]
      @ [''2024-08-03'', ''L'', ''LP''] # [''2024-09-01'', ''S'', ''MR'']
      # [[''2024-08-04'', ''S'', ''MR'']])
     = Inr ([Priced ''2024-08-01'' ''L'' ''LP'' 690 690 0, Priced ''2024-08-02'' ''L'' ''LP'' 690 690 0,
             Priced ''2024-08-03'' ''L'' ''LP'' 690 0 690, Priced ''2024-09-01'' ''S'' ''MR'' 200 150 50,
             Priced ''2024-08-04'' ''S'' ''MR'' 200 150 50],
            [''2024-08'' \<mapsto> \<lparr>L_LP_count = 3, discount = 740\<rparr>,
             ''2024-09'' \<mapsto> \<lparr>L_LP_count = 0, discount = 50\<rparr>])"
    by (simp add: eval_defs fun_upd_twist)
  have ne: "take 7 ''2024-08-03'' \<noteq> take 7 ''2024-09-01''" by simp
  have v: "''LP'' \<in> valid_providers" "''MR'' \<in> valid_providers"
    by (simp_all add: valid_providers_def)
  have l1: "process_transactions
     ([[''2024-08-01'', ''L'', ''LP''], [''2024-08-02'', ''L'', ''LP'']]
      @ [''2024-08-03'', ''L'', ''LP''] # [''2024-09-01'', ''S'', ''MR'']
      # [[''2024-08-04'', ''S'', ''MR'']])
     = Inr [''2024-08-01 L LP 6.90 -'', ''2024-08-02 L LP 6.90 -'', ''2024-08-03 L LP 0.00 6.90'',
            ''2024-09-01 S MR 1.50 0.50'', ''2024-08-04 S MR 1.50 0.50'']"
    by code_simp
  have l2: "process_transactions
     ([[''2024-08-01'', ''L'', ''LP''], [''2024-08-02'', ''L'', ''LP'']]
      @ [''2024-09-01'', ''S'', ''MR''] # [''2024-08-03'', ''L'', ''LP'']
      # [[''2024-08-04'', ''S'', ''MR'']])
     = Inr [''2024-08-01 L LP 6.90 -'', ''2024-08-02 L LP 6.90 -'', ''2024-09-01 S MR 1.50 0.50'',
            ''2024-08-03 L LP 0.00 6.90'', ''2024-08-04 S MR 1.50 0.50'']"
    by code_simp
  from month_swap [OF run ne v] obtain o1 a b o2 where
    "[Priced ''2024-08-01'' ''L'' ''LP'' 690 690 0, Priced ''2024-08-02'' ''L'' ''LP'' 690 690 0,
      Priced ''2024-08-03'' ''L'' ''LP'' 690 0 690, Priced ''2024-09-01'' ''S'' ''MR'' 200 150 50,
      Priced ''2024-08-04'' ''S'' ''MR'' 200 150 50] = o1 @ a # b # o2"
    "length o1 = length [[''2024-08-01'', ''L'', ''LP''], [''2024-08-02'', ''L'', ''LP'']]"
    "process_loop Map.empty
           ([[''2024-08-01'', ''L'', ''LP''], [''2024-08-02'', ''L'', ''LP'']]
            @ [''2024-09-01'', ''S'', ''MR''] # [''2024-08-03'', ''L'', ''LP'']
            # [[''2024-08-04'', ''S'', ''MR'']])
           = Inr (o1 @ b # a # o2,
                  [''2024-08'' \<mapsto> \<lparr>L_LP_count = 3, discount = 740\<rparr>,
                   ''2024-09'' \<mapsto> \<lparr>L_LP_count = 0, discount = 50\<rparr>])"
    by blast
  with run have "\<exists>o1 a b o2.
         length o1 = 2
       \<and> process_loop Map.empty
           ([[''2024-08-01'', ''L'', ''LP''], [''2024-08-02'', ''L'', ''LP'']]
            @ [''2024-08-03'', ''L'', ''LP''] # [''2024-09-01'', ''S'', ''MR'']
            # [[''2024-08-04'', ''S'', ''MR'']])
           = Inr (o1 @ a # b # o2,
                  [''2024-08'' \<mapsto> \<lparr>L_LP_count = 3, discount = 740\<rparr>,
                   ''2024-09'' \<mapsto> \<lparr>L_LP_count = 0, discount = 50\<rparr>])
       \<and> process_loop Map.empty
           ([[''2024-08-01'', ''L'', ''LP''], [''2024-08-02'', ''L'', ''LP'']]
            @ [''2024-09-01'', ''S'', ''MR''] # [''2024-08-03'', ''L'', ''LP'']
            # [[''2024-08-04'', ''S'', ''MR'']])
           = Inr (o1 @ b # a # o2,
                  [''2024-08'' \<mapsto> \<lparr>L_LP_count = 3, discount = 740\<rparr>,
                   ''2024-09'' \<mapsto> \<lparr>L_LP_count = 0, discount = 50\<rparr>])"
    by (intro exI [of _ o1] exI [of _ a] exI [of _ b] exI [of _ o2]) simp
  with l1 l2 show ?thesis by blast
qed

section \<open>Dates the validator accepts (C2)\<close>

text \<open>
  C2. The claim is that a line is valid only if its first token has the form
  YYYY-MM-DD (the comment in \<^verbatim>\<open>check_transaction\<close> says the same). The line
  \<^verbatim>\<open>2024-8-9 S LP\<close> is accepted although its date is not of that form: the
  directives \<^verbatim>\<open>%m\<close> and \<^verbatim>\<open>%d\<close> also match a month and a day of one digit. The
  year-month key of the accepted date is then \<^verbatim>\<open>2024-8-\<close>, not \<^verbatim>\<open>2024-08\<close>.
  On lines whose first token has the strict form the validator decides as the claim
  says (\<open>check_transaction_iso\<close>).
\<close>

theorem check_transaction_accepts_short_date:
  "check_transaction ''2024-8-9 S LP'' = [''2024-8-9'', ''S'', ''LP'']
   \<and> \<not> iso_form ''2024-8-9''
   \<and> take 7 ''2024-8-9'' = ''2024-8-''"
  by code_simp

theorem check_transaction_accepts_short_date_witness:
  "length (check_transaction ''2024-8-9 S LP'') = 3
   \<and> check_transaction ''2024-8-9 S LP'' \<noteq> [''2024-8-9 S LP'', ''Ignored'']"
  using check_transaction_accepts_short_date by simp

text \<open>A consequence: shipments of August 2024 written with and without the leading
  zero are counted under two keys, and the third-shipment rule grants twice.\<close>

lemma short_date_second_key:
  "process_loop Map.empty
     [[''2024-08-01'', ''L'', ''LP''], [''2024-08-02'', ''L'', ''LP''], [''2024-08-03'', ''L'', ''LP''],
      [''2024-8-4'', ''L'', ''LP''], [''2024-8-5'', ''L'', ''LP''], [''2024-8-6'', ''L'', ''LP'']]
   = Inr ([Priced ''2024-08-01'' ''L'' ''LP'' 690 690 0, Priced ''2024-08-02'' ''L'' ''LP'' 690 690 0,
           Priced ''2024-08-03'' ''L'' ''LP'' 690 0 690, Priced ''2024-8-4'' ''L'' ''LP'' 690 690 0,
           Priced ''2024-8-5'' ''L'' ''LP'' 690 690 0, Priced ''2024-8-6'' ''L'' ''LP'' 690 0 690],
          [''2024-08'' \<mapsto> \<lparr>L_LP_count = 3, discount = 690\<rparr>,
           ''2024-8-'' \<mapsto> \<lparr>L_LP_count = 3, discount = 690\<rparr>])"
  by (simp add: eval_defs)


end
